theory Spec2Isabelle
  imports Main
begin

section \<open>The radio group widget of RadioGroup.cpp\<close>

subsection \<open>The host framework's Object and the toolkit's values\<close>

text \<open>
  \<open>Pothos::Object\<close> is the framework's type-erased container; its conversions and its
  comparison are not part of RadioGroup.cpp, so the model takes them as parameters:
  \<open>asVector h x\<close> is the result of \<open>x.convert<ObjectVector>()\<close> and is \<open>None\<close> exactly
  when \<open>x.canConvert(typeid(ObjectVector))\<close> is false, \<open>asString\<close> does the same for
  \<open>QString\<close>, \<open>equals h a b\<close> is \<open>a.equals(b)\<close> and \<open>nullObject\<close> is \<open>Pothos::Object()\<close>.
\<close>

record 'o host =
  asVector :: "'o \<Rightarrow> 'o list option"
  asString :: "'o \<Rightarrow> string option"
  equals :: "'o \<Rightarrow> 'o \<Rightarrow> bool"
  nullObject :: 'o

definition canConvert_ObjectVector :: "'o host \<Rightarrow> 'o \<Rightarrow> bool" where
  "canConvert_ObjectVector h x = (asVector h x \<noteq> None)"

definition canConvert_QString :: "'o host \<Rightarrow> 'o \<Rightarrow> bool" where
  "canConvert_QString h x = (asString h x \<noteq> None)"

text \<open>The exceptions that the code can raise: the one it throws itself, the framework's
  conversion error and \<open>std::out_of_range\<close> of \<open>vector::at\<close>.\<close>

datatype exn =
    DataFormatException string string
  | ObjectConvertError
  | OutOfRange

fun isDataFormatException :: "exn \<Rightarrow> bool" where
  "isDataFormatException (DataFormatException _ _) = True"
| "isDataFormatException _ = False"

text \<open>A call either returns, or throws with the widget as it is at the throw.\<close>

datatype 's outcome = Returns 's | Throws exn 's

text \<open>\<open>QVariant\<close>, as far as \<open>saveState\<close> builds it: the invalid variant and an \<open>int\<close>.
  \<open>int(i)\<close> of a \<open>size_t\<close> keeps the low 32 bits, read as a signed number;
  \<open>toUInt\<close> gives 0 for the invalid variant and the low 32 bits of an \<open>int\<close>.\<close>

datatype qvariant = QVariant_Invalid | QVariant_Int int

definition int_of_size_t :: "nat \<Rightarrow> int" where
  "int_of_size_t i =
     (let m = int i mod 2 ^ 32 in if m < 2 ^ 31 then m else m - 2 ^ 32)"

fun toUInt :: "qvariant \<Rightarrow> nat" where
  "toUInt QVariant_Invalid = 0"
| "toUInt (QVariant_Int i) = nat (i mod 2 ^ 32)"

text \<open>A \<open>QRadioButton\<close> is its text and its \<open>checked\<close> property, which \<open>isChecked\<close>
  reads.\<close>

record qradiobutton =
  buttonText :: string
  isChecked :: bool

datatype direction = LeftToRight | RightToLeft | TopToBottom | BottomToTop

subsection \<open>The widget\<close>

text \<open>The calls that \<open>QMetaObject::invokeMethod\<close> posts with \<open>Qt::QueuedConnection\<close>.\<close>

datatype 'o call =
    Call_handleSetTitle string
  | Call_setValue 'o
  | Call_setOptions "'o list"

text \<open>The state of a \<open>RadioGroup\<close>: the group box's title, the layout's direction, the
  vector \<open>_radioToOption\<close>, the posted calls that have not run yet, and the payloads of
  the \<open>valueChanged\<close> signals emitted so far.\<close>

record 'o radiogroup =
  groupTitle :: string
  layoutDirection :: direction
  radioToOption :: "(qradiobutton \<times> 'o) list"
  queued :: "'o call list"
  emitted :: "'o list"

definition RadioGroup :: "'o radiogroup" where
  "RadioGroup = \<lparr>groupTitle = [], layoutDirection = TopToBottom, radioToOption = [],
     queued = [], emitted = []\<rparr>"

definition invokeMethod :: "'o call \<Rightarrow> 'o radiogroup \<Rightarrow> 'o radiogroup" where
  "invokeMethod c s = s\<lparr>queued := queued s @ [c]\<rparr>"

definition setTitle :: "string \<Rightarrow> 'o radiogroup \<Rightarrow> 'o radiogroup" where
  "setTitle t s = invokeMethod (Call_handleSetTitle t) s"

definition handleSetTitle :: "string \<Rightarrow> 'o radiogroup \<Rightarrow> 'o radiogroup" where
  "handleSetTitle t s = s\<lparr>groupTitle := t\<rparr>"

definition setDirection :: "string \<Rightarrow> 'o radiogroup \<Rightarrow> 'o radiogroup" where
  "setDirection d s =
     (let s1 = (if d = ''LeftToRight'' then s\<lparr>layoutDirection := LeftToRight\<rparr> else s);
          s2 = (if d = ''RightToLeft'' then s1\<lparr>layoutDirection := RightToLeft\<rparr> else s1);
          s3 = (if d = ''TopToBottom'' then s2\<lparr>layoutDirection := TopToBottom\<rparr> else s2)
      in if d = ''BottomToTop'' then s3\<lparr>layoutDirection := BottomToTop\<rparr> else s3)"

text \<open>\<open>value()\<close>: the loop over \<open>_radioToOption\<close> returns at the first checked button.\<close>

fun value_loop :: "'o host \<Rightarrow> (qradiobutton \<times> 'o) list \<Rightarrow> 'o" where
  "value_loop h [] = nullObject h"
| "value_loop h (pair # rest) =
     (if isChecked (fst pair) then snd pair else value_loop h rest)"

definition value_rg :: "'o host \<Rightarrow> 'o radiogroup \<Rightarrow> 'o" where
  "value_rg h s = value_loop h (radioToOption s)"

text \<open>\<open>handleRadioChanged\<close> is connected to every button's \<open>toggled\<close> signal.\<close>

definition handleRadioChanged :: "'o host \<Rightarrow> bool \<Rightarrow> 'o radiogroup \<Rightarrow> 'o radiogroup" where
  "handleRadioChanged h toggled s =
     (if \<not> toggled then s else s\<lparr>emitted := emitted s @ [value_rg h s]\<rparr>)"

definition activate :: "'o host \<Rightarrow> 'o radiogroup \<Rightarrow> 'o radiogroup" where
  "activate h s = handleRadioChanged h True s"

text \<open>Modelled from the spec: \<open>QRadioButton::setChecked\<close>, which is the toolkit's. The
  spec has the radio buttons of the group mutually exclusive: exactly one may be checked at
  a time, or none. The toolkit keeps this between the radio buttons of one parent, which
  here are the buttons of \<open>_radioToOption\<close>:
  \<^item> \<open>queryCheckedButton\<close> of the button \<open>q\<close> is nothing when \<open>q\<close> is the only button;
    otherwise it is the first other button that is checked, or \<open>q\<close> itself when no other
    is and \<open>q\<close> is checked;
  \<^item> \<open>setChecked(false)\<close> on a checked button is ignored when the button is its own
    \<open>queryCheckedButton\<close> (the checked button of a group cannot be unchecked); otherwise
    the property is written and the button raises \<open>toggled(false)\<close>;
  \<^item> \<open>setChecked(true)\<close> on an unchecked button writes the property, unchecks the
    button's \<open>queryCheckedButton\<close> with \<open>setChecked(false)\<close>, and raises
    \<open>toggled(true)\<close>;
  \<^item> \<open>setChecked\<close> with the value the property has does nothing.

  Every \<open>toggled\<close> runs \<open>handleRadioChanged\<close>, which \<open>__setOptions\<close> connects to it.\<close>

definition queryCheckedButton :: "(qradiobutton \<times> 'o) list \<Rightarrow> nat \<Rightarrow> nat option" where
  "queryCheckedButton rto q =
     (if length rto = 1 then None
      else case find (\<lambda>b. isChecked (fst (rto ! b)) \<and> b \<noteq> q) [0..<length rto] of
             Some b \<Rightarrow> Some b
           | None \<Rightarrow> if isChecked (fst (rto ! q)) then Some q else None)"

definition writeChecked :: "nat \<Rightarrow> bool \<Rightarrow> 'o radiogroup \<Rightarrow> 'o radiogroup" where
  "writeChecked q b s =
     s\<lparr>radioToOption :=
         (radioToOption s)[q := ((fst (radioToOption s ! q))\<lparr>isChecked := b\<rparr>,
                                 snd (radioToOption s ! q))]\<rparr>"

definition setUnchecked :: "'o host \<Rightarrow> nat \<Rightarrow> 'o radiogroup \<Rightarrow> 'o radiogroup" where
  "setUnchecked h q s =
     (if \<not> isChecked (fst (radioToOption s ! q)) then s
      else if queryCheckedButton (radioToOption s) q = Some q then s
      else handleRadioChanged h False (writeChecked q False s))"

definition setChecked :: "'o host \<Rightarrow> nat \<Rightarrow> bool \<Rightarrow> 'o radiogroup \<Rightarrow> 'o radiogroup" where
  "setChecked h q b s =
     (if \<not> b then setUnchecked h q s
      else if isChecked (fst (radioToOption s ! q)) then s
      else let s1 = writeChecked q True s;
               s2 = (case queryCheckedButton (radioToOption s1) q of
                       None \<Rightarrow> s1
                     | Some p \<Rightarrow> setUnchecked h p s1)
           in handleRadioChanged h True s2)"

text \<open>\<open>__setValue\<close>: every button, in the order of the vector, is set to whether its
  option equals the value.\<close>

definition setValue_step :: "'o host \<Rightarrow> 'o \<Rightarrow> nat \<Rightarrow> 'o radiogroup \<Rightarrow> 'o radiogroup" where
  "setValue_step h v i s = setChecked h i (equals h (snd (radioToOption s ! i)) v) s"

definition slot_setValue :: "'o host \<Rightarrow> 'o \<Rightarrow> 'o radiogroup \<Rightarrow> 'o radiogroup" where
  "slot_setValue h v s = fold (setValue_step h v) [0..<length (radioToOption s)] s"

definition setValue :: "'o \<Rightarrow> 'o radiogroup \<Rightarrow> 'o radiogroup" where
  "setValue v s = invokeMethod (Call_setValue v) s"

text \<open>\<open>setOptions\<close> validates every entry, then posts \<open>__setOptions\<close>.\<close>

fun validate :: "'o host \<Rightarrow> 'o list \<Rightarrow> exn option" where
  "validate h [] = None"
| "validate h (option # rest) =
     (case asVector h option of
        None \<Rightarrow> Some (DataFormatException ''RadioGroup::setOptions()'' ''entry is not ObjectVector'')
      | Some optPair \<Rightarrow>
          if length optPair \<noteq> 2
          then Some (DataFormatException ''RadioGroup::setOptions()''
                 ''entry must be ObjectVector of size == 2'')
          else if \<not> canConvert_QString h (optPair ! 0)
          then Some (DataFormatException ''RadioGroup::setOptions()'' ''entry[0] must be a string'')
          else validate h rest)"

definition setOptions :: "'o host \<Rightarrow> 'o list \<Rightarrow> 'o radiogroup \<Rightarrow> 'o radiogroup outcome" where
  "setOptions h options s =
     (case validate h options of
        Some e \<Rightarrow> Throws e s
      | None \<Rightarrow> Returns (invokeMethod (Call_setOptions options) s))"

text \<open>\<open>saveState\<close>: the index loop; \<open>restoreState\<close>.\<close>

function saveState_loop :: "(qradiobutton \<times> 'o) list \<Rightarrow> nat \<Rightarrow> qvariant" where
  "saveState_loop rto i =
     (if i < length rto
      then (if isChecked (fst (rto ! i)) then QVariant_Int (int_of_size_t i)
            else saveState_loop rto (Suc i))
      else QVariant_Invalid)"
  by pat_completeness auto
termination
  by (relation "measure (\<lambda>(rto, i). length rto - i)") auto

declare saveState_loop.simps [simp del]

definition saveState :: "'o radiogroup \<Rightarrow> qvariant" where
  "saveState s = saveState_loop (radioToOption s) 0"

definition restoreState :: "'o host \<Rightarrow> qvariant \<Rightarrow> 'o radiogroup \<Rightarrow> 'o radiogroup" where
  "restoreState h state s =
     (let index = toUInt state
      in if index \<ge> length (radioToOption s) then s
         else slot_setValue h (snd (radioToOption s ! index)) s)"

text \<open>\<open>clear\<close> and \<open>__setOptions\<close>. A new \<open>QRadioButton\<close> is not checked. The
  conversions of \<open>__setOptions\<close> are not guarded: \<open>convert\<close> throws where \<open>canConvert\<close>
  is false and \<open>at\<close> throws out of range, with the buttons built so far in place.\<close>

definition clear :: "'o radiogroup \<Rightarrow> 'o radiogroup" where
  "clear s = s\<lparr>radioToOption := []\<rparr>"

fun setOptions_loop :: "'o host \<Rightarrow> 'o list \<Rightarrow> 'o radiogroup \<Rightarrow> 'o radiogroup outcome" where
  "setOptions_loop h [] s = Returns s"
| "setOptions_loop h (option # rest) s =
     (case asVector h option of
        None \<Rightarrow> Throws ObjectConvertError s
      | Some optPair \<Rightarrow>
          if length optPair \<le> 0 then Throws OutOfRange s
          else (case asString h (optPair ! 0) of
                  None \<Rightarrow> Throws ObjectConvertError s
                | Some title \<Rightarrow>
                    if length optPair \<le> 1 then Throws OutOfRange s
                    else let v = optPair ! 1;
                             radio = \<lparr>buttonText = title, isChecked = False\<rparr>
                         in setOptions_loop h rest
                              (s\<lparr>radioToOption := radioToOption s @ [(radio, v)]\<rparr>)))"

definition slot_setOptions :: "'o host \<Rightarrow> 'o list \<Rightarrow> 'o radiogroup \<Rightarrow> 'o radiogroup outcome" where
  "slot_setOptions h options s =
     (let oldValue = value_rg h s
      in case setOptions_loop h options (clear s) of
           Throws e s' \<Rightarrow> Throws e s'
         | Returns s' \<Rightarrow> Returns (setValue oldValue s'))"

subsection \<open>The event loop\<close>

text \<open>The toolkit's event loop runs the posted calls in the order they were posted; a
  call that throws stops it.\<close>

fun dispatch :: "'o host \<Rightarrow> 'o call \<Rightarrow> 'o radiogroup \<Rightarrow> 'o radiogroup outcome" where
  "dispatch h (Call_handleSetTitle t) s = Returns (handleSetTitle t s)"
| "dispatch h (Call_setValue v) s = Returns (slot_setValue h v s)"
| "dispatch h (Call_setOptions options) s = slot_setOptions h options s"

fun call_weight :: "'o call \<Rightarrow> nat" where
  "call_weight (Call_setOptions _) = 2"
| "call_weight _ = 1"

definition queue_weight :: "'o radiogroup \<Rightarrow> nat" where
  "queue_weight s = sum_list (map call_weight (queued s))"

function processEvents :: "'o host \<Rightarrow> 'o radiogroup \<Rightarrow> 'o radiogroup outcome" where
  "processEvents h s =
     (case queued s of
        [] \<Rightarrow> Returns s
      | c # cs \<Rightarrow>
          (case dispatch h c (s\<lparr>queued := cs\<rparr>) of
             Throws e s' \<Rightarrow> Throws e s'
           | Returns s' \<Rightarrow> processEvents h s'))"
  by pat_completeness auto

text \<open>Modelled from the spec: what the toolkit does when the user selects the unchecked
  radio button at index \<open>j\<close>. It checks the button as \<open>setChecked(true)\<close> does, so the
  button checked before raises \<open>toggled(false)\<close> and the selected one \<open>toggled(true)\<close>.\<close>

definition userSelect :: "'o host \<Rightarrow> nat \<Rightarrow> 'o radiogroup \<Rightarrow> 'o radiogroup" where
  "userSelect h j s =
     (if j < length (radioToOption s) \<and> \<not> isChecked (fst (radioToOption s ! j))
      then setChecked h j True s
      else s)"

subsection \<open>The words of the specification\<close>

text \<open>An entry of the options list is well-formed when it converts to a vector of two
  elements whose first element converts to text; it is malformed when it does not convert
  to a vector, or converts to a vector whose size is not 2, or whose first element does
  not convert to text.\<close>

definition wellFormed :: "'o host \<Rightarrow> 'o \<Rightarrow> bool" where
  "wellFormed h entry =
     (case asVector h entry of
        None \<Rightarrow> False
      | Some v \<Rightarrow> length v = 2 \<and> canConvert_QString h (v ! 0))"

definition malformed :: "'o host \<Rightarrow> 'o \<Rightarrow> bool" where
  "malformed h entry =
     (\<not> canConvert_ObjectVector h entry \<or>
      (case asVector h entry of
         None \<Rightarrow> False
       | Some v \<Rightarrow> length v \<noteq> 2 \<or> \<not> canConvert_QString h (v ! 0)))"

text \<open>The pair that \<open>__setOptions\<close> is to build for a well-formed entry: an unchecked
  button with the entry's label, and the entry's value.\<close>

definition builtFrom :: "'o host \<Rightarrow> 'o \<Rightarrow> qradiobutton \<times> 'o \<Rightarrow> bool" where
  "builtFrom h entry pair =
     (case asVector h entry of
        None \<Rightarrow> False
      | Some v \<Rightarrow>
          (case asString h (v ! 0) of
             None \<Rightarrow> False
           | Some t \<Rightarrow> pair = (\<lparr>buttonText = t, isChecked = False\<rparr>, v ! 1)))"

text \<open>Exactly one radio button may be checked at a time, or none.\<close>

fun atMostOneChecked :: "(qradiobutton \<times> 'o) list \<Rightarrow> bool" where
  "atMostOneChecked [] = True"
| "atMostOneChecked (pair # rest) =
     (if isChecked (fst pair) then list_all (\<lambda>p. \<not> isChecked (fst p)) rest
      else atMostOneChecked rest)"

text \<open>The buttons of a list with their checked properties replaced by \<open>f\<close> of the index.\<close>

definition setFlags :: "(nat \<Rightarrow> bool) \<Rightarrow> (qradiobutton \<times> 'o) list \<Rightarrow> (qradiobutton \<times> 'o) list" where
  "setFlags f rto =
     map (\<lambda>k. ((fst (rto ! k))\<lparr>isChecked := f k\<rparr>, snd (rto ! k))) [0..<length rto]"

subsection \<open>Concrete objects\<close>

text \<open>A small universe of objects on which the definitions can be run: the null
  object, integers, strings and vectors, compared by equality; only a vector converts to
  a vector and only a string to text.\<close>

datatype sample_object =
    SNull
  | SInt int
  | SString string
  | SVector "sample_object list"

definition sample_host :: "sample_object host" where
  "sample_host =
     \<lparr>asVector = (\<lambda>x. case x of SVector xs \<Rightarrow> Some xs | _ \<Rightarrow> None),
      asString = (\<lambda>x. case x of SString t \<Rightarrow> Some t | _ \<Rightarrow> None),
      equals = (\<lambda>a b. a = b),
      nullObject = SNull\<rparr>"

text \<open>The widget with the given buttons (text, checked, option) and nothing else.\<close>

definition widgetWith :: "(string \<times> bool \<times> 'o) list \<Rightarrow> 'o radiogroup" where
  "widgetWith buttons =
     RadioGroup\<lparr>radioToOption :=
       map (\<lambda>(t, c, v). (\<lparr>buttonText = t, isChecked = c\<rparr>, v)) buttons\<rparr>"

section \<open>Properties\<close>

subsection \<open>The effect of the slots on the fields\<close>

lemma handleRadioChanged_fields [simp]:
  "radioToOption (handleRadioChanged h b s) = radioToOption s"
  "queued (handleRadioChanged h b s) = queued s"
  "groupTitle (handleRadioChanged h b s) = groupTitle s"
  "layoutDirection (handleRadioChanged h b s) = layoutDirection s"
  by (simp_all add: handleRadioChanged_def)

lemma writeChecked_fields [simp]:
  "queued (writeChecked q b s) = queued s"
  "groupTitle (writeChecked q b s) = groupTitle s"
  "layoutDirection (writeChecked q b s) = layoutDirection s"
  "emitted (writeChecked q b s) = emitted s"
  by (simp_all add: writeChecked_def)

lemma setUnchecked_fields [simp]:
  "queued (setUnchecked h q s) = queued s"
  "groupTitle (setUnchecked h q s) = groupTitle s"
  "layoutDirection (setUnchecked h q s) = layoutDirection s"
  "emitted (setUnchecked h q s) = emitted s"
  by (simp_all add: setUnchecked_def handleRadioChanged_def)

lemma setChecked_fields [simp]:
  "queued (setChecked h q b s) = queued s"
  "groupTitle (setChecked h q b s) = groupTitle s"
  "layoutDirection (setChecked h q b s) = layoutDirection s"
  by (simp_all add: setChecked_def Let_def split: option.splits)

lemma fold_setValue_step_fields:
  "queued (fold (setValue_step h v) ks s) = queued s \<and>
   groupTitle (fold (setValue_step h v) ks s) = groupTitle s \<and>
   layoutDirection (fold (setValue_step h v) ks s) = layoutDirection s"
  by (induction ks arbitrary: s) (simp_all add: setValue_step_def)

lemma slot_setValue_fields [simp]:
  "queued (slot_setValue h v s) = queued s"
  "groupTitle (slot_setValue h v s) = groupTitle s"
  "layoutDirection (slot_setValue h v s) = layoutDirection s"
  by (simp_all add: slot_setValue_def fold_setValue_step_fields)

lemma setOptions_loop_queued:
  "setOptions_loop h options s = Returns s' \<Longrightarrow> queued s' = queued s"
proof (induction options arbitrary: s)
  case Nil
  then show ?case by simp
next
  case (Cons option rest)
  then show ?case
    by (auto split: option.splits if_splits simp: Let_def)
qed

subsection \<open>The event loop terminates\<close>

lemma dispatch_weight:
  assumes d: "dispatch h c s = Returns s'"
  shows "queue_weight s' + 1 = queue_weight s + call_weight c"
proof (cases c)
  case (Call_handleSetTitle t)
  then show ?thesis using d by (auto simp: queue_weight_def handleSetTitle_def)
next
  case (Call_setValue v)
  then show ?thesis using d by (auto simp: queue_weight_def)
next
  case (Call_setOptions options)
  then obtain s1 where l: "setOptions_loop h options (clear s) = Returns s1"
    and s': "s' = setValue (value_rg h s) s1"
    using d by (auto simp: slot_setOptions_def Let_def split: outcome.splits)
  have "queued s1 = queued s"
    using setOptions_loop_queued [OF l] by (simp add: clear_def)
  then show ?thesis
    using Call_setOptions s' by (simp add: queue_weight_def setValue_def invokeMethod_def)
qed

termination processEvents
proof (relation "measure (\<lambda>(h, s). queue_weight s)")
  show "wf (measure (\<lambda>(h :: 'o host, s :: 'o radiogroup). queue_weight s))" by simp
next
  fix h :: "'o host" and s :: "'o radiogroup" and c cs s'
  assume q: "queued s = c # cs" and d: "dispatch h c (s\<lparr>queued := cs\<rparr>) = Returns s'"
  have "queue_weight s' + 1 = queue_weight (s\<lparr>queued := cs\<rparr>) + call_weight c"
    by (rule dispatch_weight [OF d])
  moreover have "queue_weight s = queue_weight (s\<lparr>queued := cs\<rparr>) + call_weight c"
    using q by (simp add: queue_weight_def)
  ultimately show "((h, s'), (h, s)) \<in> measure (\<lambda>(h, s). queue_weight s)"
    by simp
qed

declare processEvents.simps [simp del]

subsection \<open>Validation of the options\<close>

lemma malformed_iff: "malformed h entry = (\<not> wellFormed h entry)"
  by (simp add: malformed_def wellFormed_def canConvert_ObjectVector_def split: option.splits)

lemma validate_None_iff:
  "validate h options = None \<longleftrightarrow> (\<forall>entry\<in>set options. wellFormed h entry)"
  by (induction options) (auto simp: wellFormed_def split: option.splits)

lemma validate_Some_DataFormat:
  "validate h options = Some e \<Longrightarrow> isDataFormatException e"
  by (induction options) (auto split: option.splits if_splits)

text \<open>
  Claim C1. \<open>setOptions\<close> raises a data-format error if and only if some entry of the
  options list is malformed (it does not convert to a vector, or the vector's size is not
  2, or the vector's first element does not convert to text); it raises nothing else; and
  when every entry is a well-formed pair it returns, having posted \<open>__setOptions\<close>.
\<close>

theorem setOptions_raises_iff_malformed:
  "((\<exists>e s'. setOptions h options s = Throws e s' \<and> isDataFormatException e)
      \<longleftrightarrow> (\<exists>entry\<in>set options. malformed h entry))
   \<and> ((\<exists>e s'. setOptions h options s = Throws e s')
      \<longleftrightarrow> (\<exists>entry\<in>set options. malformed h entry))
   \<and> ((\<forall>entry\<in>set options. wellFormed h entry) \<longrightarrow>
        setOptions h options s = Returns (invokeMethod (Call_setOptions options) s))"
proof (cases "validate h options")
  case None
  then have "\<forall>entry\<in>set options. wellFormed h entry"
    by (simp add: validate_None_iff)
  then show ?thesis
    using None by (simp add: setOptions_def malformed_iff)
next
  case (Some e)
  then have "\<not> (\<forall>entry\<in>set options. wellFormed h entry)"
    using validate_None_iff [of h options] by simp
  moreover have "isDataFormatException e"
    using Some by (rule validate_Some_DataFormat)
  ultimately show ?thesis
    using Some by (auto simp: setOptions_def malformed_iff)
qed

theorem setOptions_raises_iff_malformed_witness:
  "(\<exists>e s'. setOptions sample_host [SVector [SString ''Opt0'', SInt 42], SInt 7] RadioGroup
        = Throws e s' \<and> isDataFormatException e)
   \<and> (\<exists>e s'. setOptions sample_host [SVector [SInt 0, SInt 42]] RadioGroup
        = Throws e s' \<and> isDataFormatException e)
   \<and> (\<exists>e s'. setOptions sample_host [SVector [SString ''Opt0'']] RadioGroup
        = Throws e s' \<and> isDataFormatException e)
   \<and> setOptions sample_host
        [SVector [SString ''Opt0'', SInt 42], SVector [SString ''Opt1'', SString ''xyz'']] RadioGroup
        = Returns (invokeMethod (Call_setOptions
            [SVector [SString ''Opt0'', SInt 42], SVector [SString ''Opt1'', SString ''xyz'']])
            RadioGroup)"
  using setOptions_raises_iff_malformed
      [of sample_host "[SVector [SString ''Opt0'', SInt 42], SInt 7]" RadioGroup]
    setOptions_raises_iff_malformed [of sample_host "[SVector [SInt 0, SInt 42]]" RadioGroup]
    setOptions_raises_iff_malformed [of sample_host "[SVector [SString ''Opt0'']]" RadioGroup]
    setOptions_raises_iff_malformed
      [of sample_host
        "[SVector [SString ''Opt0'', SInt 42], SVector [SString ''Opt1'', SString ''xyz'']]"
        RadioGroup]
  by (simp add: malformed_def wellFormed_def canConvert_ObjectVector_def canConvert_QString_def
      sample_host_def)

text \<open>
  Claim C2. When \<open>setOptions\<close> raises, the widget is exactly as it was: the throw comes
  out of the validation, before \<open>__setOptions\<close> is posted, so the buttons, the reported
  value and the posted calls are those of before, and the event loop runs as it would have.
\<close>

theorem setOptions_error_leaves_state:
  assumes "setOptions h options s = Throws e s'"
  shows "s' = s \<and> radioToOption s' = radioToOption s \<and> value_rg h s' = value_rg h s
    \<and> queued s' = queued s \<and> processEvents h s' = processEvents h s"
  using assms by (auto simp: setOptions_def split: option.splits)

theorem setOptions_error_leaves_state_witness:
  "setOptions sample_host [SVector [SString ''Opt0'', SInt 42], SInt 7]
      (widgetWith [(''A'', True, SInt 1), (''B'', False, SInt 2)])
     = Throws (DataFormatException ''RadioGroup::setOptions()'' ''entry is not ObjectVector'')
         (widgetWith [(''A'', True, SInt 1), (''B'', False, SInt 2)])
   \<and> value_rg sample_host (widgetWith [(''A'', True, SInt 1), (''B'', False, SInt 2)]) = SInt 1"
proof -
  have t: "setOptions sample_host [SVector [SString ''Opt0'', SInt 42], SInt 7]
      (widgetWith [(''A'', True, SInt 1), (''B'', False, SInt 2)])
     = Throws (DataFormatException ''RadioGroup::setOptions()'' ''entry is not ObjectVector'')
         (widgetWith [(''A'', True, SInt 1), (''B'', False, SInt 2)])"
    by (simp add: setOptions_def sample_host_def canConvert_QString_def)
  show ?thesis
    using setOptions_error_leaves_state [OF t] t
    by (simp add: value_rg_def widgetWith_def RadioGroup_def)
qed

subsection \<open>Reading the selection: value and saveState\<close>

lemma value_loop_first:
  "i < length xs \<Longrightarrow> isChecked (fst (xs ! i)) \<Longrightarrow> (\<forall>j<i. \<not> isChecked (fst (xs ! j)))
   \<Longrightarrow> value_loop h xs = snd (xs ! i)"
proof (induction xs arbitrary: i)
  case Nil
  then show ?case by simp
next
  case (Cons pair rest)
  show ?case
  proof (cases i)
    case 0
    then show ?thesis using Cons.prems by simp
  next
    case (Suc k)
    have "\<not> isChecked (fst pair)"
      using Cons.prems(3) Suc by auto
    moreover have "value_loop h rest = snd (rest ! k)"
    proof (rule Cons.IH)
      show "k < length rest" using Cons.prems(1) Suc by simp
      show "isChecked (fst (rest ! k))" using Cons.prems(2) Suc by simp
      show "\<forall>j<k. \<not> isChecked (fst (rest ! j))"
        using Cons.prems(3) Suc by auto
    qed
    ultimately show ?thesis using Suc by simp
  qed
qed

lemma value_loop_none:
  "(\<forall>p\<in>set xs. \<not> isChecked (fst p)) \<Longrightarrow> value_loop h xs = nullObject h"
  by (induction xs) simp_all

lemma saveState_loop_first:
  "k \<le> i \<Longrightarrow> i < length rto \<Longrightarrow> isChecked (fst (rto ! i))
   \<Longrightarrow> (\<forall>j. k \<le> j \<and> j < i \<longrightarrow> \<not> isChecked (fst (rto ! j)))
   \<Longrightarrow> saveState_loop rto k = QVariant_Int (int_of_size_t i)"
proof (induction rto k rule: saveState_loop.induct)
  case (1 rto k)
  show ?case
  proof (cases "k = i")
    case True
    then show ?thesis using "1.prems"(2,3) by (simp add: saveState_loop.simps [of rto i])
  next
    case False
    then have lt: "k < i" using "1.prems"(1) by simp
    then have nc: "\<not> isChecked (fst (rto ! k))" using "1.prems"(4) by simp
    have "saveState_loop rto (Suc k) = QVariant_Int (int_of_size_t i)"
      using "1.IH" [of ] lt nc "1.prems" by simp
    then show ?thesis
      using lt nc "1.prems"(2) by (simp add: saveState_loop.simps [of rto k])
  qed
qed

lemma saveState_loop_none:
  "(\<forall>j. k \<le> j \<and> j < length rto \<longrightarrow> \<not> isChecked (fst (rto ! j)))
   \<Longrightarrow> saveState_loop rto k = QVariant_Invalid"
proof (induction rto k rule: saveState_loop.induct)
  case (1 rto k)
  show ?case
  proof (cases "k < length rto")
    case True
    then have nc: "\<not> isChecked (fst (rto ! k))" using "1.prems" by simp
    have "saveState_loop rto (Suc k) = QVariant_Invalid"
      using "1.IH" True nc "1.prems" by simp
    then show ?thesis using True nc by (simp add: saveState_loop.simps [of rto k])
  next
    case False
    then show ?thesis by (simp add: saveState_loop.simps [of rto k])
  qed
qed

lemma int_of_size_t_small: "i < 2 ^ 31 \<Longrightarrow> int_of_size_t i = int i"
proof -
  assume a: "i < 2 ^ 31"
  have "int i < int (2 ^ 31)" using a by (simp only: of_nat_less_iff)
  then have b: "int i < 2 ^ 31" by simp
  then have "int i < 2 ^ 32" by simp
  then have m: "int i mod 2 ^ 32 = int i" by (simp add: mod_pos_pos_trivial)
  show ?thesis unfolding int_of_size_t_def m Let_def using b by simp
qed

subsection \<open>Claims about reading and restoring the selection\<close>

text \<open>
  Claim C4. When the index that \<open>restoreState\<close> reads from its argument is greater than
  or equal to the number of options, \<open>restoreState\<close> returns the widget unchanged: the
  checked state of every button, the option list and the reported value are as before.
\<close>

theorem restoreState_out_of_range:
  assumes "toUInt state \<ge> length (radioToOption s)"
  shows "restoreState h state s = s
    \<and> map (\<lambda>p. isChecked (fst p)) (radioToOption (restoreState h state s))
        = map (\<lambda>p. isChecked (fst p)) (radioToOption s)
    \<and> radioToOption (restoreState h state s) = radioToOption s
    \<and> value_rg h (restoreState h state s) = value_rg h s"
  using assms by (simp add: restoreState_def)

theorem restoreState_out_of_range_witness:
  "restoreState sample_host (QVariant_Int 2)
      (widgetWith [(''A'', False, SInt 1), (''B'', True, SInt 2)])
     = widgetWith [(''A'', False, SInt 1), (''B'', True, SInt 2)]
   \<and> restoreState sample_host (QVariant_Int (- 1))
      (widgetWith [(''A'', False, SInt 1), (''B'', True, SInt 2)])
     = widgetWith [(''A'', False, SInt 1), (''B'', True, SInt 2)]
   \<and> restoreState sample_host QVariant_Invalid (widgetWith []) = widgetWith []"
  using restoreState_out_of_range [of "widgetWith [(''A'', False, SInt 1), (''B'', True, SInt 2)]"
      "QVariant_Int 2" sample_host]
    restoreState_out_of_range [of "widgetWith [(''A'', False, SInt 1), (''B'', True, SInt 2)]"
      "QVariant_Int (- 1)" sample_host]
    restoreState_out_of_range [of "widgetWith []" QVariant_Invalid sample_host]
  by (simp add: widgetWith_def RadioGroup_def)

text \<open>
  Claim C5. \<open>value()\<close> returns the option paired with the first checked radio button
  in the order of the list, and the null object when no radio button is checked.
\<close>

theorem value_first_checked:
  "(i < length (radioToOption s) \<and> isChecked (fst (radioToOption s ! i))
      \<and> (\<forall>j<i. \<not> isChecked (fst (radioToOption s ! j)))
      \<longrightarrow> value_rg h s = snd (radioToOption s ! i))
   \<and> ((\<forall>i<length (radioToOption s). \<not> isChecked (fst (radioToOption s ! i)))
      \<longrightarrow> value_rg h s = nullObject h)"
proof (intro conjI impI)
  assume "i < length (radioToOption s) \<and> isChecked (fst (radioToOption s ! i))
      \<and> (\<forall>j<i. \<not> isChecked (fst (radioToOption s ! j)))"
  then show "value_rg h s = snd (radioToOption s ! i)"
    by (simp add: value_rg_def value_loop_first)
next
  assume "\<forall>i<length (radioToOption s). \<not> isChecked (fst (radioToOption s ! i))"
  then have "\<forall>p\<in>set (radioToOption s). \<not> isChecked (fst p)"
    unfolding all_set_conv_all_nth .
  then show "value_rg h s = nullObject h"
    by (simp add: value_rg_def value_loop_none)
qed

theorem value_first_checked_witness:
  "value_rg sample_host
      (widgetWith [(''A'', False, SInt 1), (''B'', True, SInt 2), (''C'', False, SInt 3)]) = SInt 2
   \<and> value_rg sample_host (widgetWith [(''A'', False, SInt 1), (''B'', False, SInt 2)]) = SNull"
  using value_first_checked [of 1
      "widgetWith [(''A'', False, SInt 1), (''B'', True, SInt 2), (''C'', False, SInt 3)]" sample_host]
    value_first_checked [of 0 "widgetWith [(''A'', False, SInt 1), (''B'', False, SInt 2)]" sample_host]
  by (simp add: widgetWith_def RadioGroup_def sample_host_def less_Suc_eq)

text \<open>
  Claim C6. \<open>saveState\<close> returns the index of the first checked radio button as an
  \<open>int\<close> (the index itself for every index below \<open>2 ^ 31\<close>, where \<open>int(i)\<close> is exact),
  and the invalid variant when no radio button is checked.
\<close>

theorem saveState_first_checked:
  "(i < length (radioToOption s) \<and> isChecked (fst (radioToOption s ! i))
      \<and> (\<forall>j<i. \<not> isChecked (fst (radioToOption s ! j)))
      \<longrightarrow> saveState s = QVariant_Int (int_of_size_t i)
          \<and> (i < 2 ^ 31 \<longrightarrow> saveState s = QVariant_Int (int i)))
   \<and> ((\<forall>i<length (radioToOption s). \<not> isChecked (fst (radioToOption s ! i)))
      \<longrightarrow> saveState s = QVariant_Invalid)"
proof (intro conjI impI)
  assume a: "i < length (radioToOption s) \<and> isChecked (fst (radioToOption s ! i))
      \<and> (\<forall>j<i. \<not> isChecked (fst (radioToOption s ! j)))"
  then show r: "saveState s = QVariant_Int (int_of_size_t i)"
    by (simp add: saveState_def saveState_loop_first)
  assume "i < 2 ^ 31"
  then show "saveState s = QVariant_Int (int i)"
    using r by (simp add: int_of_size_t_small)
next
  assume "\<forall>i<length (radioToOption s). \<not> isChecked (fst (radioToOption s ! i))"
  then show "saveState s = QVariant_Invalid"
    by (simp add: saveState_def saveState_loop_none)
qed

theorem saveState_first_checked_witness:
  "saveState (widgetWith [(''A'', False, SInt 1), (''B'', True, SInt 2), (''C'', False, SInt 3)])
     = QVariant_Int 1
   \<and> saveState (widgetWith [(''A'', False, SInt 1), (''B'', False, SInt 2)]) = QVariant_Invalid"
  using saveState_first_checked [of 1
      "widgetWith [(''A'', False, SInt 1), (''B'', True, SInt 2), (''C'', False, SInt 3)]"]
    saveState_first_checked [of 0 "widgetWith [(''A'', False, SInt 1), (''B'', False, SInt 2)]"]
  by (simp add: widgetWith_def RadioGroup_def less_Suc_eq int_of_size_t_def)

subsection \<open>The toolkit keeps the buttons mutually exclusive\<close>

lemma length_setFlags [simp]: "length (setFlags f rto) = length rto"
  by (simp add: setFlags_def)

lemma nth_setFlags [simp]:
  "k < length rto \<Longrightarrow> setFlags f rto ! k = ((fst (rto ! k))\<lparr>isChecked := f k\<rparr>, snd (rto ! k))"
  by (simp add: setFlags_def)

lemma setFlags_cong:
  "(\<And>k. k < length rto \<Longrightarrow> f k = g k) \<Longrightarrow> setFlags f rto = setFlags g rto"
  by (simp add: setFlags_def)

lemma setFlags_id:
  assumes "\<And>k. k < length rto \<Longrightarrow> f k = isChecked (fst (rto ! k))"
  shows "setFlags f rto = rto"
proof (rule nth_equalityI)
  show "length (setFlags f rto) = length rto" by simp
next
  fix k
  assume "k < length (setFlags f rto)"
  then have k: "k < length rto" by simp
  have "(fst (rto ! k))\<lparr>isChecked := isChecked (fst (rto ! k))\<rparr> = fst (rto ! k)" by simp
  then show "setFlags f rto ! k = rto ! k"
    using k assms [OF k] by simp
qed

lemma setFlags_setFlags [simp]: "setFlags g (setFlags f rto) = setFlags g rto"
  by (rule nth_equalityI) simp_all

lemma setFlags_update:
  assumes "q < length rto"
  shows "(setFlags f rto)[q := ((fst (setFlags f rto ! q))\<lparr>isChecked := b\<rparr>, snd (setFlags f rto ! q))]
    = setFlags (f(q := b)) rto"
  by (rule nth_equalityI) (use assms in \<open>simp_all add: nth_list_update\<close>)

lemma map_snd_setFlags [simp]: "map snd (setFlags f rto) = map snd rto"
  by (rule nth_equalityI) simp_all

lemma atMostOne_unique:
  "atMostOneChecked rto \<Longrightarrow> i < length rto \<Longrightarrow> j < length rto
   \<Longrightarrow> isChecked (fst (rto ! i)) \<Longrightarrow> isChecked (fst (rto ! j)) \<Longrightarrow> i = j"
proof (induction rto arbitrary: i j)
  case Nil
  then show ?case by simp
next
  case (Cons pair rest)
  show ?case
  proof (cases "isChecked (fst pair)")
    case True
    then have n: "\<forall>p\<in>set rest. \<not> isChecked (fst p)"
      using Cons.prems(1) by (simp add: list_all_iff)
    have "i = 0"
    proof (cases i)
      case (Suc i')
      then have "rest ! i' \<in> set rest" using Cons.prems(2) by simp
      then show ?thesis using n Cons.prems(4) Suc by simp
    qed simp
    moreover have "j = 0"
    proof (cases j)
      case (Suc j')
      then have "rest ! j' \<in> set rest" using Cons.prems(3) by simp
      then show ?thesis using n Cons.prems(5) Suc by simp
    qed simp
    ultimately show ?thesis by simp
  next
    case False
    then have a: "atMostOneChecked rest" using Cons.prems(1) by simp
    obtain i' where i': "i = Suc i'" using False Cons.prems(4) by (cases i) auto
    obtain j' where j': "j = Suc j'" using False Cons.prems(5) by (cases j) auto
    have "i' = j'"
      using Cons.IH [OF a, of i' j'] Cons.prems i' j' by simp
    then show ?thesis using i' j' by simp
  qed
qed

lemma atMostOneI:
  "(\<And>i j. i < length rto \<Longrightarrow> j < length rto \<Longrightarrow> isChecked (fst (rto ! i))
      \<Longrightarrow> isChecked (fst (rto ! j)) \<Longrightarrow> i = j) \<Longrightarrow> atMostOneChecked rto"
proof (induction rto)
  case Nil
  then show ?case by simp
next
  case (Cons pair rest)
  show ?case
  proof (cases "isChecked (fst pair)")
    case True
    have "\<not> isChecked (fst p)" if "p \<in> set rest" for p
    proof
      assume c: "isChecked (fst p)"
      from that obtain k where k: "k < length rest" "rest ! k = p"
        by (auto simp: in_set_conv_nth)
      have "Suc k = 0"
        using Cons.prems [of "Suc k" 0] k c True by simp
      then show False by simp
    qed
    then show ?thesis using True by (simp add: list_all_iff)
  next
    case False
    have "atMostOneChecked rest"
    proof (rule Cons.IH)
      fix i j
      assume "i < length rest" "j < length rest" "isChecked (fst (rest ! i))"
        "isChecked (fst (rest ! j))"
      then have "Suc i = Suc j"
        using Cons.prems [of "Suc i" "Suc j"] by simp
      then show "i = j" by simp
    qed
    then show ?thesis using False by simp
  qed
qed

lemma atMostOne_setFlags_only [simp]: "atMostOneChecked (setFlags (\<lambda>k. k = q) rto)"
  by (rule atMostOneI) simp

lemma atMostOne_setFlags_none [simp]: "atMostOneChecked (setFlags (\<lambda>k. False) rto)"
  by (rule atMostOneI) simp

lemma find_upt_unique:
  assumes "c < n" "P c" "\<And>k. k < n \<Longrightarrow> P k \<Longrightarrow> k = c"
  shows "find P [0..<n] = Some c"
proof -
  have "\<exists>i<length [0..<n]. P ([0..<n] ! i) \<and> c = [0..<n] ! i \<and> (\<forall>j<i. \<not> P ([0..<n] ! j))"
  proof (intro exI [of _ c] conjI allI impI)
    show "c < length [0..<n]" using assms(1) by simp
    show "P ([0..<n] ! c)" using assms(1,2) by simp
    show "c = [0..<n] ! c" using assms(1) by simp
    fix j assume "j < c"
    then show "\<not> P ([0..<n] ! j)" using assms(1) assms(3) [of j] by auto
  qed
  then show ?thesis by (simp only: find_Some_iff)
qed

lemma find_upt_none:
  assumes "\<And>k. k < n \<Longrightarrow> \<not> P k"
  shows "find P [0..<n] = None"
  using assms by (simp add: find_None_iff)

lemma queryCheckedButton_setFlags:
  assumes "q < length rto"
  shows "queryCheckedButton (setFlags f rto) q =
     (if length rto = 1 then None
      else case find (\<lambda>b. f b \<and> b \<noteq> q) [0..<length rto] of
             Some b \<Rightarrow> Some b
           | None \<Rightarrow> if f q then Some q else None)"
proof -
  have "find (\<lambda>b. isChecked (fst (setFlags f rto ! b)) \<and> b \<noteq> q) [0..<length rto]
      = find (\<lambda>b. f b \<and> b \<noteq> q) [0..<length rto]"
    by (rule find_cong) simp_all
  then show ?thesis
    using assms by (simp add: queryCheckedButton_def)
qed

lemma writeChecked_setFlags:
  assumes "q < length rto" and "radioToOption s = setFlags f rto"
  shows "radioToOption (writeChecked q b s) = setFlags (f(q := b)) rto"
  using setFlags_update [OF assms(1), of f b] assms(2) by (simp add: writeChecked_def)

lemma value_setFlags_only:
  assumes "q < length rto"
  shows "value_loop h (setFlags (\<lambda>k. k = q) rto) = snd (rto ! q)"
proof -
  have "value_loop h (setFlags (\<lambda>k. k = q) rto) = snd (setFlags (\<lambda>k. k = q) rto ! q)"
  proof (rule value_loop_first)
    show "q < length (setFlags (\<lambda>k. k = q) rto)" using assms by simp
    show "isChecked (fst (setFlags (\<lambda>k. k = q) rto ! q))" using assms by simp
    show "\<forall>j<q. \<not> isChecked (fst (setFlags (\<lambda>k. k = q) rto ! j))" using assms by simp
  qed
  then show ?thesis using assms by simp
qed

lemma value_setFlags_none: "value_loop h (setFlags (\<lambda>k. False) rto) = nullObject h"
proof (rule value_loop_none)
  show "\<forall>p\<in>set (setFlags (\<lambda>k. False) rto). \<not> isChecked (fst p)"
    unfolding all_set_conv_all_nth by simp
qed

lemma only_checked_is_setFlags:
  assumes amo: "atMostOneChecked rto" and q: "q < length rto" and c: "isChecked (fst (rto ! q))"
  shows "setFlags (\<lambda>k. k = q) rto = rto"
proof (rule setFlags_id)
  fix k
  assume k: "k < length rto"
  show "(k = q) = isChecked (fst (rto ! k))"
    using atMostOne_unique [OF amo k q] c by auto
qed

lemma setUnchecked_setFlags:
  assumes p: "p < length rto" and r: "radioToOption s = setFlags f rto"
  shows "radioToOption (setUnchecked h p s) =
     (if f p \<and> (length rto = 1 \<or> (\<exists>b<length rto. f b \<and> b \<noteq> p))
      then setFlags (f(p := False)) rto else setFlags f rto)"
proof (cases "f p")
  case False
  then show ?thesis using p r by (simp add: setUnchecked_def)
next
  case True
  then have chk: "isChecked (fst (radioToOption s ! p))" using p r by simp
  show ?thesis
  proof (cases "length rto = 1")
    case one: True
    then have "queryCheckedButton (radioToOption s) p = None"
      using p r by (simp add: queryCheckedButton_setFlags)
    then show ?thesis
      using chk True one writeChecked_setFlags [OF p r, of False]
      by (simp add: setUnchecked_def)
  next
    case many: False
    show ?thesis
    proof (cases "\<exists>b<length rto. f b \<and> b \<noteq> p")
      case ex: True
      have "find (\<lambda>b. f b \<and> b \<noteq> p) [0..<length rto] \<noteq> None"
        using ex by (simp add: find_None_iff)
      then obtain b where b: "find (\<lambda>b. f b \<and> b \<noteq> p) [0..<length rto] = Some b" by blast
      then have "b \<noteq> p" by (auto simp: find_Some_iff)
      then have "queryCheckedButton (radioToOption s) p \<noteq> Some p"
        using many b p r by (simp add: queryCheckedButton_setFlags)
      then show ?thesis
        using chk True ex writeChecked_setFlags [OF p r, of False]
        by (simp add: setUnchecked_def)
    next
      case nex: False
      then have "find (\<lambda>b. f b \<and> b \<noteq> p) [0..<length rto] = None"
        by (simp add: find_None_iff)
      then have qc: "queryCheckedButton (radioToOption s) p = Some p"
        using many True p r by (simp add: queryCheckedButton_setFlags)
      have cond: "\<not> (f p \<and> (length rto = 1 \<or> (\<exists>b<length rto. f b \<and> b \<noteq> p)))"
        using many nex by blast
      have "radioToOption (setUnchecked h p s) = setFlags f rto"
        using chk qc by (simp add: setUnchecked_def r)
      then show ?thesis unfolding if_not_P [OF cond] .
    qed
  qed
qed

lemma setChecked_False_rto:
  assumes q: "q < length (radioToOption s)" and amo: "atMostOneChecked (radioToOption s)"
  shows "radioToOption (setChecked h q False s) =
     (if isChecked (fst (radioToOption s ! q)) \<and> length (radioToOption s) = 1
      then setFlags (\<lambda>k. False) (radioToOption s) else radioToOption s)"
proof -
  let ?rto = "radioToOption s"
  let ?f = "\<lambda>k. isChecked (fst (?rto ! k))"
  have id: "setFlags ?f ?rto = ?rto" by (rule setFlags_id) simp
  note u = setUnchecked_setFlags [OF q id [symmetric], of h, unfolded id]
  have nex: "\<not> (\<exists>b<length ?rto. ?f b \<and> b \<noteq> q)" if "?f q"
    using atMostOne_unique [OF amo _ q _ that] by blast
  have one: "setFlags (?f(q := False)) ?rto = setFlags (\<lambda>k. False) ?rto" if "length ?rto = 1"
    by (rule setFlags_cong) (use that q in auto)
  show ?thesis
  proof (cases "?f q \<and> length ?rto = 1")
    case True
    then have "radioToOption (setUnchecked h q s) = setFlags (?f(q := False)) ?rto"
      using u by simp
    then show ?thesis unfolding if_P [OF True] using True one by (simp add: setChecked_def)
  next
    case False
    then have "\<not> (?f q \<and> (length ?rto = 1 \<or> (\<exists>b<length ?rto. ?f b \<and> b \<noteq> q)))"
      using nex by blast
    then have "radioToOption (setUnchecked h q s) = ?rto"
      using u by (simp only: if_False)
    then show ?thesis unfolding if_not_P [OF False] by (simp add: setChecked_def)
  qed
qed

lemma setChecked_True_rto:
  assumes q: "q < length (radioToOption s)" and amo: "atMostOneChecked (radioToOption s)"
  shows "radioToOption (setChecked h q True s) = setFlags (\<lambda>k. k = q) (radioToOption s)"
    and "emitted (setChecked h q True s) =
      (if isChecked (fst (radioToOption s ! q)) then emitted s
       else emitted s @ [snd (radioToOption s ! q)])"
proof -
  let ?rto = "radioToOption s"
  let ?n = "length ?rto"
  let ?f = "\<lambda>k. isChecked (fst (?rto ! k))"
  let ?g = "?f(q := True)"
  let ?s1 = "writeChecked q True s"
  let ?s2 = "case queryCheckedButton (radioToOption ?s1) q of
               None \<Rightarrow> ?s1 | Some p \<Rightarrow> setUnchecked h p ?s1"
  have r: "?rto = setFlags ?f ?rto" by (rule setFlags_id [symmetric]) simp
  have r1: "radioToOption ?s1 = setFlags ?g ?rto"
    by (rule writeChecked_setFlags [OF q r])
  have s2: "radioToOption ?s2 = setFlags (\<lambda>k. k = q) ?rto \<and> emitted ?s2 = emitted s"
    if nq: "\<not> ?f q"
  proof (cases "\<exists>c<?n. ?f c \<and> c \<noteq> q")
    case True
    then obtain c where c: "c < ?n" "?f c" "c \<noteq> q" by blast
    have uniq: "k = c" if "k < ?n" "?f k" for k
      using atMostOne_unique [OF amo that(1) c(1) that(2) c(2)] .
    have many: "?n \<noteq> 1" using c(1,3) q by auto
    have "find (\<lambda>b. ?g b \<and> b \<noteq> q) [0..<?n] = Some c"
    proof (rule find_upt_unique)
      show "c < ?n" by (rule c(1))
      show "?g c \<and> c \<noteq> q" using c(2,3) by simp
      fix k assume "k < ?n" "?g k \<and> k \<noteq> q"
      then show "k = c" using uniq [of k] by simp
    qed
    then have qc: "queryCheckedButton (radioToOption ?s1) q = Some c"
      unfolding r1 queryCheckedButton_setFlags [OF q] using many by simp
    have ex: "\<exists>b<?n. ?g b \<and> b \<noteq> c" using q c(3) by auto
    have "radioToOption (setUnchecked h c ?s1) = setFlags (?g(c := False)) ?rto"
      using setUnchecked_setFlags [OF c(1) r1, of h] ex c(2,3) by simp
    also have "\<dots> = setFlags (\<lambda>k. k = q) ?rto"
    proof (rule setFlags_cong)
      fix k assume k: "k < ?n"
      show "(?g(c := False)) k = (k = q)"
      proof (cases "k = q")
        case True
        then show ?thesis using c(3) by simp
      next
        case False
        have "\<not> ?f k" if "k \<noteq> c" using uniq [OF k] that by blast
        then show ?thesis using False by simp
      qed
    qed
    finally show ?thesis using qc by simp
  next
    case False
    then have none: "\<not> ?f k" if "k < ?n" for k
      using that nq by (cases "k = q") auto
    have fnd: "find (\<lambda>b. ?g b \<and> b \<noteq> q) [0..<?n] = None"
    proof (rule find_upt_none)
      fix k assume "k < ?n"
      then show "\<not> (?g k \<and> k \<noteq> q)" using none [of k] by simp
    qed
    have only: "setFlags ?g ?rto = setFlags (\<lambda>k. k = q) ?rto"
    proof (rule setFlags_cong)
      fix k assume "k < ?n"
      then show "?g k = (k = q)" using none [of k] by simp
    qed
    show ?thesis
    proof (cases "?n = 1")
      case True
      then have "queryCheckedButton (radioToOption ?s1) q = None"
        unfolding r1 queryCheckedButton_setFlags [OF q] by simp
      then show ?thesis using r1 only by simp
    next
      case many: False
      then have qc: "queryCheckedButton (radioToOption ?s1) q = Some q"
        unfolding r1 queryCheckedButton_setFlags [OF q] fnd by simp
      have "\<not> (\<exists>b<?n. ?g b \<and> b \<noteq> q)"
      proof
        assume "\<exists>b<?n. ?g b \<and> b \<noteq> q"
        then obtain b where "b < ?n" "?g b" "b \<noteq> q" by blast
        then show False using none [of b] by simp
      qed
      then have "\<not> (?g q \<and> (?n = 1 \<or> (\<exists>b<?n. ?g b \<and> b \<noteq> q)))"
        using many by blast
      then have "radioToOption (setUnchecked h q ?s1) = setFlags ?g ?rto"
        using setUnchecked_setFlags [OF q r1, of h] by (simp only: if_False)
      then show ?thesis using qc only by simp
    qed
  qed
  show "radioToOption (setChecked h q True s) = setFlags (\<lambda>k. k = q) ?rto"
  proof (cases "?f q")
    case True
    then show ?thesis
      using only_checked_is_setFlags [OF amo q] by (simp add: setChecked_def)
  next
    case False
    then show ?thesis using s2 by (simp add: setChecked_def Let_def)
  qed
  show "emitted (setChecked h q True s) =
      (if ?f q then emitted s else emitted s @ [snd (?rto ! q)])"
  proof (cases "?f q")
    case True
    then show ?thesis by (simp add: setChecked_def)
  next
    case False
    have "value_rg h ?s2 = snd (?rto ! q)"
      using s2 [OF False] q by (simp add: value_rg_def value_setFlags_only)
    then show ?thesis
      using False s2 by (simp add: setChecked_def Let_def handleRadioChanged_def)
  qed
qed

lemma fold_setValue_step_rto:
  assumes amo: "atMostOneChecked (radioToOption s)"
  shows "k \<le> length (radioToOption s) \<Longrightarrow>
    (\<exists>c<k. equals h (snd (radioToOption s ! c)) v
        \<and> (\<forall>i. c < i \<and> i < k \<longrightarrow> \<not> equals h (snd (radioToOption s ! i)) v)
        \<and> radioToOption (fold (setValue_step h v) [0..<k] s)
            = setFlags (\<lambda>j. j = c) (radioToOption s))
    \<or> ((\<forall>i<k. \<not> equals h (snd (radioToOption s ! i)) v)
        \<and> radioToOption (fold (setValue_step h v) [0..<k] s)
            = (if length (radioToOption s) = 1 \<and> k = 1
               then setFlags (\<lambda>j. False) (radioToOption s) else radioToOption s))"
proof (induction k)
  case 0
  then show ?case by simp
next
  case (Suc k)
  let ?rto = "radioToOption s"
  let ?n = "length ?rto"
  let ?m = "\<lambda>i. equals h (snd (?rto ! i)) v"
  let ?t = "fold (setValue_step h v) [0..<k] s"
  have k: "k < ?n" using Suc.prems by simp
  have step: "fold (setValue_step h v) [0..<Suc k] s
      = setChecked h k (equals h (snd (radioToOption ?t ! k)) v) ?t"
    by (simp add: setValue_step_def)
  from Suc.IH k consider
    (match) c where "c < k" "?m c" "\<forall>i. c < i \<and> i < k \<longrightarrow> \<not> ?m i"
      "radioToOption ?t = setFlags (\<lambda>j. j = c) ?rto"
    | (nomatch) "\<forall>i<k. \<not> ?m i" "radioToOption ?t = ?rto"
    by (cases "?n = 1") auto
  then show ?case
  proof cases
    case match
    have len: "k < length (radioToOption ?t)" using k match(4) by simp
    have amo_t: "atMostOneChecked (radioToOption ?t)" using match(4) by simp
    have opt: "equals h (snd (radioToOption ?t ! k)) v = ?m k" using k match(4) by simp
    show ?thesis
    proof (cases "?m k")
      case True
      have "radioToOption (setChecked h k True ?t) = setFlags (\<lambda>j. j = k) ?rto"
        using setChecked_True_rto(1) [OF len amo_t, of h] match(4) by simp
      then have "radioToOption (fold (setValue_step h v) [0..<Suc k] s)
          = setFlags (\<lambda>j. j = k) ?rto"
        unfolding step opt using True by simp
      moreover have "\<forall>i. k < i \<and> i < Suc k \<longrightarrow> \<not> ?m i" by arith
      ultimately show ?thesis using True by blast
    next
      case False
      have "\<not> isChecked (fst (radioToOption ?t ! k))"
        using k match(1,4) by simp
      then have "radioToOption (setChecked h k False ?t) = radioToOption ?t"
        using setChecked_False_rto [OF len amo_t, of h] by simp
      then have r: "radioToOption (fold (setValue_step h v) [0..<Suc k] s)
          = setFlags (\<lambda>j. j = c) ?rto"
        unfolding step opt using False match(4) by simp
      have "\<forall>i. c < i \<and> i < Suc k \<longrightarrow> \<not> ?m i"
        using match(3) False by (auto simp: less_Suc_eq)
      moreover have "c < Suc k" using match(1) by simp
      ultimately show ?thesis using match(2) r by blast
    qed
  next
    case nomatch
    have len: "k < length (radioToOption ?t)" using k nomatch(2) by simp
    have amo_t: "atMostOneChecked (radioToOption ?t)" using nomatch(2) amo by simp
    have opt: "equals h (snd (radioToOption ?t ! k)) v = ?m k" using nomatch(2) by simp
    show ?thesis
    proof (cases "?m k")
      case True
      have "radioToOption (setChecked h k True ?t) = setFlags (\<lambda>j. j = k) ?rto"
        using setChecked_True_rto(1) [OF len amo_t, of h] nomatch(2) by simp
      then have "radioToOption (fold (setValue_step h v) [0..<Suc k] s)
          = setFlags (\<lambda>j. j = k) ?rto"
        unfolding step opt using True by simp
      moreover have "\<forall>i. k < i \<and> i < Suc k \<longrightarrow> \<not> ?m i" by arith
      ultimately show ?thesis using True by blast
    next
      case False
      have none: "\<forall>i<Suc k. \<not> ?m i" using nomatch(1) False by (auto simp: less_Suc_eq)
      have f: "radioToOption (setChecked h k False ?t) =
          (if isChecked (fst (?rto ! k)) \<and> ?n = 1 then setFlags (\<lambda>k. False) ?rto else ?rto)"
        using setChecked_False_rto [OF len amo_t, of h] nomatch(2) by simp
      have "radioToOption (setChecked h k False ?t)
          = (if ?n = 1 \<and> Suc k = 1 then setFlags (\<lambda>j. False) ?rto else ?rto)"
      proof (cases "?n = 1")
        case True
        then have k0: "k = 0" using k by simp
        show ?thesis
        proof (cases "isChecked (fst (?rto ! k))")
          case c: True
          then show ?thesis using f True k0 by simp
        next
          case nc: False
          have "setFlags (\<lambda>j. False) ?rto = ?rto"
          proof (rule setFlags_id)
            fix j assume "j < ?n"
            then have "j = k" using True k0 by simp
            then show "False = isChecked (fst (?rto ! j))" using nc by simp
          qed
          then show ?thesis using f nc True k0 by simp
        qed
      next
        case False
        then show ?thesis using f by simp
      qed
      then have "radioToOption (fold (setValue_step h v) [0..<Suc k] s)
          = (if ?n = 1 \<and> Suc k = 1 then setFlags (\<lambda>j. False) ?rto else ?rto)"
        unfolding step opt using False by simp
      then show ?thesis using none by blast
    qed
  qed
qed

lemma slot_setValue_match:
  assumes amo: "atMostOneChecked (radioToOption s)"
    and c: "c < length (radioToOption s)" "equals h (snd (radioToOption s ! c)) v"
    and last: "\<forall>i<length (radioToOption s). c < i \<longrightarrow> \<not> equals h (snd (radioToOption s ! i)) v"
  shows "radioToOption (slot_setValue h v s) = setFlags (\<lambda>j. j = c) (radioToOption s)"
proof -
  let ?rto = "radioToOption s"
  let ?m = "\<lambda>i. equals h (snd (?rto ! i)) v"
  from fold_setValue_step_rto [OF amo order_refl, of h v] c
  obtain c' where c': "c' < length ?rto" "?m c'"
      "\<forall>i. c' < i \<and> i < length ?rto \<longrightarrow> \<not> ?m i"
      "radioToOption (slot_setValue h v s) = setFlags (\<lambda>j. j = c') ?rto"
    unfolding slot_setValue_def by blast
  have "\<not> c < c'" using last c'(1,2) by blast
  moreover have "\<not> c' < c" using c'(3) c by blast
  ultimately have "c' = c" by simp
  then show ?thesis using c'(4) by simp
qed

lemma slot_setValue_nomatch:
  assumes amo: "atMostOneChecked (radioToOption s)"
    and none: "\<forall>i<length (radioToOption s). \<not> equals h (snd (radioToOption s ! i)) v"
  shows "radioToOption (slot_setValue h v s) =
     (if length (radioToOption s) = 1 then setFlags (\<lambda>j. False) (radioToOption s)
      else radioToOption s)"
  using fold_setValue_step_rto [OF amo order_refl, of h v] none
  unfolding slot_setValue_def by auto

subsection \<open>Setting the value\<close>

lemma processEvents_empty: "queued s = [] \<Longrightarrow> processEvents h s = Returns s"
  by (simp add: processEvents.simps [of h s])

lemma processEvents_setValue:
  assumes "queued s = []"
  shows "processEvents h (setValue v s) = Returns (slot_setValue h v s)"
proof -
  have q: "queued (setValue v s) = [Call_setValue v]"
    using assms by (simp add: setValue_def invokeMethod_def)
  have e: "(setValue v s)\<lparr>queued := []\<rparr> = s"
    using assms by (simp add: setValue_def invokeMethod_def)
  have "processEvents h (setValue v s) = processEvents h (slot_setValue h v s)"
    by (subst processEvents.simps) (simp add: q e)
  also have "\<dots> = Returns (slot_setValue h v s)"
    using assms by (simp add: processEvents_empty)
  finally show ?thesis .
qed

lemma slot_setValue_cases:
  assumes amo: "atMostOneChecked (radioToOption s)"
  shows "(\<exists>c<length (radioToOption s). equals h (snd (radioToOption s ! c)) v
        \<and> (\<forall>i<length (radioToOption s). c < i \<longrightarrow> \<not> equals h (snd (radioToOption s ! i)) v)
        \<and> radioToOption (slot_setValue h v s) = setFlags (\<lambda>j. j = c) (radioToOption s))
    \<or> ((\<forall>i<length (radioToOption s). \<not> equals h (snd (radioToOption s ! i)) v)
        \<and> radioToOption (slot_setValue h v s) =
            (if length (radioToOption s) = 1 then setFlags (\<lambda>j. False) (radioToOption s)
             else radioToOption s))"
  using fold_setValue_step_rto [OF amo order_refl, of h v]
  unfolding slot_setValue_def by auto

lemma slot_setValue_atMostOne:
  assumes amo: "atMostOneChecked (radioToOption s)"
  shows "atMostOneChecked (radioToOption (slot_setValue h v s))"
  using slot_setValue_cases [OF amo, of h v] amo by auto

lemma slot_setValue_same_options:
  assumes amo: "atMostOneChecked (radioToOption s)"
  shows "length (radioToOption (slot_setValue h v s)) = length (radioToOption s)"
    and "map snd (radioToOption (slot_setValue h v s)) = map snd (radioToOption s)"
  using slot_setValue_cases [OF amo, of h v] by auto

lemma unchecked_atMostOne:
  "\<forall>p\<in>set rto. \<not> isChecked (fst p) \<Longrightarrow> atMostOneChecked rto"
  by (rule atMostOneI) (simp add: all_set_conv_all_nth)

lemma map_text_setFlags:
  "map (\<lambda>p. buttonText (fst p)) (setFlags f rto) = map (\<lambda>p. buttonText (fst p)) rto"
  by (rule nth_equalityI) simp_all

lemma slot_setValue_same_texts:
  assumes amo: "atMostOneChecked (radioToOption s)"
  shows "map (\<lambda>p. buttonText (fst p)) (radioToOption (slot_setValue h v s))
      = map (\<lambda>p. buttonText (fst p)) (radioToOption s)"
  using slot_setValue_cases [OF amo, of h v] by (auto simp: map_text_setFlags)

text \<open>
  Claim C9, as stated, fails in two ways, because the buttons are mutually exclusive.
  \<^item> \<open>__setValue\<close> calls \<open>setChecked(true)\<close> on every button whose option equals the
    value, and each of these calls unchecks the button checked by the one before. With two
    options of value 1 and no button checked, \<open>__setValue(1)\<close> leaves the first button
    unchecked, although its option equals 1, and the second checked.
  \<^item> \<open>setChecked(false)\<close> does not uncheck the checked button of a group of several
    buttons. With the options A:1, B:2 and A checked, \<open>__setValue(9)\<close> leaves A checked,
    although no option equals 9, and \<open>value()\<close> still returns 1.
\<close>

theorem slot_setValue_counterexample:
  "equals sample_host (snd (radioToOption
        (widgetWith [(''A'', False, SInt 1), (''B'', False, SInt 1)]) ! 0)) (SInt 1)
   \<and> \<not> isChecked (fst (radioToOption (slot_setValue sample_host (SInt 1)
        (widgetWith [(''A'', False, SInt 1), (''B'', False, SInt 1)])) ! 0))
   \<and> isChecked (fst (radioToOption (slot_setValue sample_host (SInt 1)
        (widgetWith [(''A'', False, SInt 1), (''B'', False, SInt 1)])) ! 1))
   \<and> \<not> equals sample_host (snd (radioToOption
        (widgetWith [(''A'', True, SInt 1), (''B'', False, SInt 2)]) ! 0)) (SInt 9)
   \<and> \<not> equals sample_host (snd (radioToOption
        (widgetWith [(''A'', True, SInt 1), (''B'', False, SInt 2)]) ! 1)) (SInt 9)
   \<and> isChecked (fst (radioToOption (slot_setValue sample_host (SInt 9)
        (widgetWith [(''A'', True, SInt 1), (''B'', False, SInt 2)])) ! 0))
   \<and> value_rg sample_host (slot_setValue sample_host (SInt 9)
        (widgetWith [(''A'', True, SInt 1), (''B'', False, SInt 2)])) = SInt 1"
proof -
  let ?w = "widgetWith [(''A'', False, SInt 1), (''B'', False, SInt 1)]"
  let ?u = "widgetWith [(''A'', True, SInt 1), (''B'', False, SInt 2)]"
  have rto: "radioToOption ?w = [(\<lparr>buttonText = ''A'', isChecked = False\<rparr>, SInt 1),
       (\<lparr>buttonText = ''B'', isChecked = False\<rparr>, SInt 1)]"
    and rtu: "radioToOption ?u = [(\<lparr>buttonText = ''A'', isChecked = True\<rparr>, SInt 1),
       (\<lparr>buttonText = ''B'', isChecked = False\<rparr>, SInt 2)]"
    by (simp_all add: widgetWith_def RadioGroup_def)
  have "radioToOption (slot_setValue sample_host (SInt 1) ?w) = setFlags (\<lambda>j. j = 1) (radioToOption ?w)"
    by (rule slot_setValue_match) (simp_all add: rto sample_host_def)
  then have dup: "\<not> isChecked (fst (radioToOption (slot_setValue sample_host (SInt 1) ?w) ! 0))
      \<and> isChecked (fst (radioToOption (slot_setValue sample_host (SInt 1) ?w) ! 1))"
    by (simp add: rto setFlags_def)
  have "radioToOption (slot_setValue sample_host (SInt 9) ?u) =
     (if length (radioToOption ?u) = 1 then setFlags (\<lambda>j. False) (radioToOption ?u)
      else radioToOption ?u)"
    by (rule slot_setValue_nomatch) (simp_all add: rtu sample_host_def less_Suc_eq)
  then have same: "radioToOption (slot_setValue sample_host (SInt 9) ?u) = radioToOption ?u"
    by (simp add: rtu)
  have kept: "isChecked (fst (radioToOption (slot_setValue sample_host (SInt 9) ?u) ! 0))
      \<and> value_rg sample_host (slot_setValue sample_host (SInt 9) ?u) = SInt 1"
    unfolding value_rg_def same by (simp add: rtu)
  have eqs: "equals sample_host (snd (radioToOption ?w ! 0)) (SInt 1)
      \<and> \<not> equals sample_host (snd (radioToOption ?u ! 0)) (SInt 9)
      \<and> \<not> equals sample_host (snd (radioToOption ?u ! 1)) (SInt 9)"
    by (simp add: rto rtu sample_host_def)
  show ?thesis using dup kept eqs by (intro conjI) simp_all
qed

text \<open>
  Claim C9, amended. On a widget with at most one button checked, \<open>__setValue(v)\<close> keeps
  the options and the buttons' texts, and keeps at most one button checked. If some option
  compares equal to \<open>v\<close>, exactly one button is checked afterwards: the last one, in the
  order of the list, whose option equals \<open>v\<close>; \<open>value()\<close> returns its option. If no
  option equals \<open>v\<close>: the button of a widget with a single button is unchecked, so no
  button is checked and \<open>value()\<close> returns the null object; the buttons of a widget with
  another number of buttons are left as they were, so a button that was checked stays
  checked and \<open>value()\<close> returns what it returned; in both cases, when no button was
  checked before, none is afterwards and \<open>value()\<close> returns the null object.
  \<open>setValue(v)\<close>, once the event loop has run it on a widget with no other posted call,
  is \<open>__setValue(v)\<close>.
\<close>

theorem slot_setValue_selects_last_equal:
  assumes amo: "atMostOneChecked (radioToOption s)"
  shows "length (radioToOption (slot_setValue h v s)) = length (radioToOption s)
    \<and> map snd (radioToOption (slot_setValue h v s)) = map snd (radioToOption s)
    \<and> map (\<lambda>p. buttonText (fst p)) (radioToOption (slot_setValue h v s))
        = map (\<lambda>p. buttonText (fst p)) (radioToOption s)
    \<and> atMostOneChecked (radioToOption (slot_setValue h v s))
    \<and> (\<forall>c<length (radioToOption s).
          equals h (snd (radioToOption s ! c)) v
          \<and> (\<forall>i<length (radioToOption s). c < i \<longrightarrow> \<not> equals h (snd (radioToOption s ! i)) v)
          \<longrightarrow> (\<forall>j<length (radioToOption s).
                 isChecked (fst (radioToOption (slot_setValue h v s) ! j)) = (j = c))
              \<and> value_rg h (slot_setValue h v s) = snd (radioToOption s ! c))
    \<and> ((\<forall>i<length (radioToOption s). \<not> equals h (snd (radioToOption s ! i)) v)
          \<longrightarrow> (length (radioToOption s) = 1
                 \<longrightarrow> \<not> isChecked (fst (radioToOption (slot_setValue h v s) ! 0))
                   \<and> value_rg h (slot_setValue h v s) = nullObject h)
              \<and> (length (radioToOption s) \<noteq> 1
                 \<longrightarrow> radioToOption (slot_setValue h v s) = radioToOption s
                   \<and> value_rg h (slot_setValue h v s) = value_rg h s)
              \<and> ((\<forall>j<length (radioToOption s). \<not> isChecked (fst (radioToOption s ! j)))
                 \<longrightarrow> (\<forall>j<length (radioToOption s).
                        \<not> isChecked (fst (radioToOption (slot_setValue h v s) ! j)))
                   \<and> value_rg h (slot_setValue h v s) = nullObject h))
    \<and> (queued s = [] \<longrightarrow> processEvents h (setValue v s) = Returns (slot_setValue h v s))"
proof (intro conjI allI impI)
  show "length (radioToOption (slot_setValue h v s)) = length (radioToOption s)"
    by (rule slot_setValue_same_options [OF amo])
  show "map snd (radioToOption (slot_setValue h v s)) = map snd (radioToOption s)"
    by (rule slot_setValue_same_options [OF amo])
  show "map (\<lambda>p. buttonText (fst p)) (radioToOption (slot_setValue h v s))
        = map (\<lambda>p. buttonText (fst p)) (radioToOption s)"
    by (rule slot_setValue_same_texts [OF amo])
  show "atMostOneChecked (radioToOption (slot_setValue h v s))"
    by (rule slot_setValue_atMostOne [OF amo])
next
  fix c
  assume c: "c < length (radioToOption s)"
    and m: "equals h (snd (radioToOption s ! c)) v
          \<and> (\<forall>i<length (radioToOption s). c < i \<longrightarrow> \<not> equals h (snd (radioToOption s ! i)) v)"
  have r: "radioToOption (slot_setValue h v s) = setFlags (\<lambda>j. j = c) (radioToOption s)"
    using slot_setValue_match [OF amo c] m by blast
  show "value_rg h (slot_setValue h v s) = snd (radioToOption s ! c)"
    using c by (simp add: value_rg_def r value_setFlags_only)
  fix j
  assume "j < length (radioToOption s)"
  then show "isChecked (fst (radioToOption (slot_setValue h v s) ! j)) = (j = c)"
    by (simp add: r)
next
  assume n: "\<forall>i<length (radioToOption s). \<not> equals h (snd (radioToOption s ! i)) v"
  note r = slot_setValue_nomatch [OF amo n]
  {
    assume one: "length (radioToOption s) = 1"
    have r1: "radioToOption (slot_setValue h v s) = setFlags (\<lambda>j. False) (radioToOption s)"
      unfolding r using one by simp
    show "\<not> isChecked (fst (radioToOption (slot_setValue h v s) ! 0))"
      unfolding r1 using one by simp
    show "value_rg h (slot_setValue h v s) = nullObject h"
      unfolding value_rg_def [of h "slot_setValue h v s"] r1 by (rule value_setFlags_none)
  }
  {
    assume more: "length (radioToOption s) \<noteq> 1"
    show same: "radioToOption (slot_setValue h v s) = radioToOption s"
      unfolding r using more by simp
    show "value_rg h (slot_setValue h v s) = value_rg h s"
      by (simp add: value_rg_def same)
  }
  assume u: "\<forall>j<length (radioToOption s). \<not> isChecked (fst (radioToOption s ! j))"
  have un: "\<forall>j<length (radioToOption s).
      \<not> isChecked (fst (radioToOption (slot_setValue h v s) ! j))"
    unfolding r using u by simp
  then have "\<forall>p\<in>set (radioToOption (slot_setValue h v s)). \<not> isChecked (fst p)"
    unfolding all_set_conv_all_nth slot_setValue_same_options(1) [OF amo] .
  then show "value_rg h (slot_setValue h v s) = nullObject h"
    by (simp add: value_rg_def value_loop_none)
  fix j
  assume "j < length (radioToOption s)"
  then show "\<not> isChecked (fst (radioToOption (slot_setValue h v s) ! j))"
    using un by simp
next
  assume "queued s = []"
  then show "processEvents h (setValue v s) = Returns (slot_setValue h v s)"
    by (rule processEvents_setValue)
qed

theorem slot_setValue_selects_last_equal_witness:
  "map (\<lambda>p. isChecked (fst p)) (radioToOption (slot_setValue sample_host (SInt 2)
      (widgetWith [(''A'', True, SInt 1), (''B'', False, SInt 2), (''C'', False, SInt 2)])))
     = [False, False, True]
   \<and> value_rg sample_host (slot_setValue sample_host (SInt 2)
      (widgetWith [(''A'', True, SInt 1), (''B'', False, SInt 2), (''C'', False, SInt 2)])) = SInt 2
   \<and> \<not> isChecked (fst (radioToOption (slot_setValue sample_host (SInt 9)
      (widgetWith [(''A'', True, SInt 1)])) ! 0))
   \<and> value_rg sample_host (slot_setValue sample_host (SInt 9)
      (widgetWith [(''A'', True, SInt 1)])) = SNull
   \<and> radioToOption (slot_setValue sample_host (SInt 9)
      (widgetWith [(''A'', True, SInt 1), (''B'', False, SInt 2), (''C'', False, SInt 2)]))
     = radioToOption (widgetWith [(''A'', True, SInt 1), (''B'', False, SInt 2), (''C'', False, SInt 2)])
   \<and> value_rg sample_host (slot_setValue sample_host (SInt 9)
      (widgetWith [(''A'', True, SInt 1), (''B'', False, SInt 2), (''C'', False, SInt 2)])) = SInt 1
   \<and> processEvents sample_host (setValue (SInt 2)
      (widgetWith [(''A'', True, SInt 1), (''B'', False, SInt 2), (''C'', False, SInt 2)]))
     = Returns (slot_setValue sample_host (SInt 2)
      (widgetWith [(''A'', True, SInt 1), (''B'', False, SInt 2), (''C'', False, SInt 2)]))"
proof -
  let ?w = "widgetWith [(''A'', True, SInt 1), (''B'', False, SInt 2), (''C'', False, SInt 2)]"
  let ?l = "widgetWith [(''A'', True, SInt 1)]"
  have rto: "radioToOption ?w = [(\<lparr>buttonText = ''A'', isChecked = True\<rparr>, SInt 1),
       (\<lparr>buttonText = ''B'', isChecked = False\<rparr>, SInt 2),
       (\<lparr>buttonText = ''C'', isChecked = False\<rparr>, SInt 2)]"
    and rtl: "radioToOption ?l = [(\<lparr>buttonText = ''A'', isChecked = True\<rparr>, SInt 1)]"
    and idle: "queued ?w = []"
    by (simp_all add: widgetWith_def RadioGroup_def)
  have l: "length (radioToOption ?w) = 3" "length (radioToOption ?l) = 1"
    by (simp_all add: rto rtl)
  have three: "\<And>P. (\<forall>i<(3::nat). P i) = (P 0 \<and> P 1 \<and> P 2)"
    by (auto simp: numeral_3_eq_3 numeral_2_eq_2 less_Suc_eq)
  have one: "\<And>P. (\<forall>i<(1::nat). P i) = P 0"
    by simp
  have nth: "\<And>xs :: bool list. length xs = 3 \<Longrightarrow> xs = [xs ! 0, xs ! 1, xs ! 2]"
    by (auto simp: numeral_3_eq_3 numeral_2_eq_2 length_Suc_conv)
  have amo_w: "atMostOneChecked (radioToOption ?w)" by (simp add: rto)
  have amo_l: "atMostOneChecked (radioToOption ?l)" by (simp add: rtl)
  have eq: "equals sample_host = (\<lambda>a b. a = b)" and nl: "nullObject sample_host = SNull"
    by (simp_all add: sample_host_def)
  have vw: "value_rg sample_host ?w = SInt 1" by (simp add: value_rg_def rto)
  note a = slot_setValue_selects_last_equal [OF amo_w, of sample_host "SInt 2", unfolded l three eq]
  note b = slot_setValue_selects_last_equal [OF amo_l, of sample_host "SInt 9", unfolded l one eq nl]
  note c = slot_setValue_selects_last_equal [OF amo_w, of sample_host "SInt 9", unfolded l three eq vw]
  have a0: "length (radioToOption (slot_setValue sample_host (SInt 2) ?w)) = 3"
    using a by simp
  have a1: "\<not> isChecked (fst (radioToOption (slot_setValue sample_host (SInt 2) ?w) ! 0))
      \<and> \<not> isChecked (fst (radioToOption (slot_setValue sample_host (SInt 2) ?w) ! 1))
      \<and> isChecked (fst (radioToOption (slot_setValue sample_host (SInt 2) ?w) ! 2))
      \<and> value_rg sample_host (slot_setValue sample_host (SInt 2) ?w) = SInt 2"
    using a [THEN conjunct2, THEN conjunct2, THEN conjunct2, THEN conjunct2, THEN conjunct1,
        THEN conjunct2, THEN conjunct2, THEN mp]
    by (simp add: rto)
  have f: "map (\<lambda>p. isChecked (fst p)) (radioToOption (slot_setValue sample_host (SInt 2) ?w))
     = [False, False, True]"
    by (subst nth) (use a0 a1 in simp_all)
  have v: "value_rg sample_host (slot_setValue sample_host (SInt 2) ?w) = SInt 2"
    using a1 by simp
  have nl9: "snd (radioToOption ?l ! 0) \<noteq> SInt 9" by (simp add: rtl)
  have nw9: "snd (radioToOption ?w ! 0) \<noteq> SInt 9 \<and> snd (radioToOption ?w ! 1) \<noteq> SInt 9
      \<and> snd (radioToOption ?w ! 2) \<noteq> SInt 9" by (simp add: rto)
  note b5 = b [THEN conjunct2, THEN conjunct2, THEN conjunct2, THEN conjunct2, THEN conjunct2,
      THEN conjunct1, THEN mp, OF nl9, THEN conjunct1]
  have lone: "\<not> isChecked (fst (radioToOption (slot_setValue sample_host (SInt 9) ?l) ! 0))
      \<and> value_rg sample_host (slot_setValue sample_host (SInt 9) ?l) = SNull"
    using b5 by simp
  note c5 = c [THEN conjunct2, THEN conjunct2, THEN conjunct2, THEN conjunct2, THEN conjunct2,
      THEN conjunct1, THEN mp, OF nw9, THEN conjunct2, THEN conjunct1]
  have kept: "radioToOption (slot_setValue sample_host (SInt 9) ?w) = radioToOption ?w
      \<and> value_rg sample_host (slot_setValue sample_host (SInt 9) ?w) = SInt 1"
    using c5 by simp
  have p: "processEvents sample_host (setValue (SInt 2) ?w)
     = Returns (slot_setValue sample_host (SInt 2) ?w)"
    using a idle by simp
  show ?thesis using f v lone kept p by (intro conjI) simp_all
qed

subsection \<open>The buttons stay mutually exclusive\<close>

lemma RadioGroup_atMostOne: "atMostOneChecked (radioToOption RadioGroup)"
  by (simp add: RadioGroup_def)

lemma setChecked_atMostOne:
  assumes q: "q < length (radioToOption s)" and amo: "atMostOneChecked (radioToOption s)"
  shows "atMostOneChecked (radioToOption (setChecked h q b s))"
proof (cases b)
  case True
  then show ?thesis using setChecked_True_rto(1) [OF q amo, of h] by simp
next
  case False
  then show ?thesis using setChecked_False_rto [OF q amo, of h] amo by simp
qed

lemma userSelect_atMostOne:
  assumes amo: "atMostOneChecked (radioToOption s)"
  shows "atMostOneChecked (radioToOption (userSelect h j s))"
  using amo setChecked_atMostOne [of j s h True] by (simp add: userSelect_def)

lemma restoreState_atMostOne:
  assumes amo: "atMostOneChecked (radioToOption s)"
  shows "atMostOneChecked (radioToOption (restoreState h state s))"
  using amo slot_setValue_atMostOne [OF amo] by (simp add: restoreState_def Let_def)

lemma setOptions_loop_Returns:
  "setOptions_loop h options s = Returns s' \<Longrightarrow>
   \<exists>new. s' = s\<lparr>radioToOption := radioToOption s @ new\<rparr> \<and> list_all2 (builtFrom h) options new"
proof (induction options arbitrary: s)
  case Nil
  then show ?case by simp
next
  case (Cons entry rest)
  from Cons.prems obtain v t where v: "asVector h entry = Some v"
    and t: "asString h (v ! 0) = Some t"
    and r: "setOptions_loop h rest
        (s\<lparr>radioToOption := radioToOption s @ [(\<lparr>buttonText = t, isChecked = False\<rparr>, v ! 1)]\<rparr>)
        = Returns s'"
    by (auto split: option.splits if_splits simp: Let_def)
  let ?p = "(\<lparr>buttonText = t, isChecked = False\<rparr>, v ! 1)"
  from Cons.IH [OF r] obtain new where
    n: "s' = s\<lparr>radioToOption := (radioToOption s @ [?p]) @ new\<rparr>"
    and l: "list_all2 (builtFrom h) rest new"
    by auto
  have b: "builtFrom h entry ?p"
    using v t by (simp add: builtFrom_def)
  have "s' = s\<lparr>radioToOption := radioToOption s @ (?p # new)\<rparr>" using n by simp
  moreover have "list_all2 (builtFrom h) (entry # rest) (?p # new)" using b l by simp
  ultimately show ?case by blast
qed

lemma builtFrom_unchecked: "builtFrom h entry pair \<Longrightarrow> \<not> isChecked (fst pair)"
  by (auto simp: builtFrom_def split: option.splits)

lemma built_all_unchecked:
  assumes "list_all2 (builtFrom h) options new"
  shows "\<forall>p\<in>set new. \<not> isChecked (fst p)"
  unfolding all_set_conv_all_nth
proof (intro allI impI)
  fix i assume "i < length new"
  then have "builtFrom h (options ! i) (new ! i)"
    using assms by (simp add: list_all2_conv_all_nth)
  then show "\<not> isChecked (fst (new ! i))" by (rule builtFrom_unchecked)
qed

lemma slot_setOptions_atMostOne:
  assumes "slot_setOptions h options s = Returns s'"
  shows "atMostOneChecked (radioToOption s')"
proof -
  from assms obtain s1 where l: "setOptions_loop h options (clear s) = Returns s1"
    and s': "s' = setValue (value_rg h s) s1"
    by (auto simp: slot_setOptions_def Let_def split: outcome.splits)
  from setOptions_loop_Returns [OF l] obtain new where
    "radioToOption s1 = new" "list_all2 (builtFrom h) options new"
    by (auto simp: clear_def)
  then have "atMostOneChecked (radioToOption s1)"
    using built_all_unchecked unchecked_atMostOne by blast
  then show ?thesis using s' by (simp add: setValue_def invokeMethod_def)
qed

lemma dispatch_atMostOne:
  assumes "dispatch h c s = Returns s'" and "atMostOneChecked (radioToOption s)"
  shows "atMostOneChecked (radioToOption s')"
proof (cases c)
  case (Call_handleSetTitle t)
  then show ?thesis using assms by (auto simp: handleSetTitle_def)
next
  case (Call_setValue v)
  then show ?thesis using assms slot_setValue_atMostOne by auto
next
  case (Call_setOptions options)
  then show ?thesis using assms slot_setOptions_atMostOne by auto
qed

lemma processEvents_atMostOne:
  "processEvents h s = Returns s' \<Longrightarrow> atMostOneChecked (radioToOption s)
   \<Longrightarrow> atMostOneChecked (radioToOption s')"
proof (induction h s rule: processEvents.induct)
  case (1 h s)
  show ?case
  proof (cases "queued s")
    case Nil
    then show ?thesis using "1.prems" by (simp add: processEvents.simps [of h s])
  next
    case (Cons c cs)
    from "1.prems"(1) Cons obtain s1 where d: "dispatch h c (s\<lparr>queued := cs\<rparr>) = Returns s1"
      and p: "processEvents h s1 = Returns s'"
      by (auto simp: processEvents.simps [of h s] split: outcome.splits)
    have "atMostOneChecked (radioToOption s1)"
      using dispatch_atMostOne [OF d] "1.prems"(2) by simp
    then show ?thesis using "1.IH" [OF Cons d p] by simp
  qed
qed

subsection \<open>Selection by the user\<close>

text \<open>
  Claim C8. \<open>handleRadioChanged\<close> does nothing for \<open>toggled == false\<close> and emits
  \<open>valueChanged\<close> with the current \<open>value()\<close> for \<open>toggled == true\<close>. When the user
  selects an unchecked radio button of a widget with at most one button checked, the
  signals emitted are those of before followed by exactly one \<open>valueChanged\<close>, whose
  payload is the option of the selected button; that button is then the only one checked.
\<close>

theorem selection_emits_once:
  "handleRadioChanged h False s = s
   \<and> handleRadioChanged h True s = s\<lparr>emitted := emitted s @ [value_rg h s]\<rparr>
   \<and> (atMostOneChecked (radioToOption s) \<and> j < length (radioToOption s)
        \<and> \<not> isChecked (fst (radioToOption s ! j)) \<longrightarrow>
        emitted (userSelect h j s) = emitted s @ [snd (radioToOption s ! j)]
        \<and> (\<forall>i<length (radioToOption s).
              isChecked (fst (radioToOption (userSelect h j s) ! i)) = (i = j))
        \<and> value_rg h (userSelect h j s) = snd (radioToOption s ! j))"
proof (intro conjI impI)
  show "handleRadioChanged h False s = s"
    by (simp add: handleRadioChanged_def)
  show "handleRadioChanged h True s = s\<lparr>emitted := emitted s @ [value_rg h s]\<rparr>"
    by (simp add: handleRadioChanged_def)
next
  assume a: "atMostOneChecked (radioToOption s) \<and> j < length (radioToOption s)
        \<and> \<not> isChecked (fst (radioToOption s ! j))"
  then have amo: "atMostOneChecked (radioToOption s)" and j: "j < length (radioToOption s)"
    and u: "\<not> isChecked (fst (radioToOption s ! j))"
    by simp_all
  have us: "userSelect h j s = setChecked h j True s"
    using j u by (simp add: userSelect_def)
  note r = setChecked_True_rto [OF j amo, of h]
  show "emitted (userSelect h j s) = emitted s @ [snd (radioToOption s ! j)]"
    unfolding us using r(2) u by simp
  show "\<forall>i<length (radioToOption s).
      isChecked (fst (radioToOption (userSelect h j s) ! i)) = (i = j)"
    unfolding us r(1) by simp
  show "value_rg h (userSelect h j s) = snd (radioToOption s ! j)"
    unfolding us value_rg_def r(1) using j by (rule value_setFlags_only)
qed

theorem selection_emits_once_witness:
  "emitted (userSelect sample_host 1
      (widgetWith [(''A'', True, SInt 1), (''B'', False, SInt 2), (''C'', False, SInt 3)]))
     = [SInt 2]
   \<and> value_rg sample_host (userSelect sample_host 1
      (widgetWith [(''A'', True, SInt 1), (''B'', False, SInt 2), (''C'', False, SInt 3)]))
     = SInt 2
   \<and> handleRadioChanged sample_host False
      (widgetWith [(''A'', True, SInt 1), (''B'', False, SInt 2), (''C'', False, SInt 3)])
     = widgetWith [(''A'', True, SInt 1), (''B'', False, SInt 2), (''C'', False, SInt 3)]"
proof -
  let ?w = "widgetWith [(''A'', True, SInt 1), (''B'', False, SInt 2), (''C'', False, SInt 3)]"
  have rto: "radioToOption ?w = [(\<lparr>buttonText = ''A'', isChecked = True\<rparr>, SInt 1),
         (\<lparr>buttonText = ''B'', isChecked = False\<rparr>, SInt 2),
         (\<lparr>buttonText = ''C'', isChecked = False\<rparr>, SInt 3)]"
    and em: "emitted ?w = []"
    by (simp_all add: widgetWith_def RadioGroup_def)
  have pre: "atMostOneChecked (radioToOption ?w) \<and> 1 < length (radioToOption ?w)
      \<and> \<not> isChecked (fst (radioToOption ?w ! 1))"
    unfolding rto by simp
  have v: "snd (radioToOption ?w ! 1) = SInt 2" unfolding rto by simp
  note t = selection_emits_once [of sample_host ?w 1]
  note t1 = t [THEN conjunct1]
  note t3 = t [THEN conjunct2, THEN conjunct2, THEN mp, OF pre, unfolded v em]
  show ?thesis
    using t1 t3 by simp
qed

subsection \<open>Saving and restoring\<close>

lemma toUInt_int_of_size_t: "i < 2 ^ 32 \<Longrightarrow> toUInt (QVariant_Int (int_of_size_t i)) = i"
proof -
  assume a: "i < 2 ^ 32"
  have b: "int i < 2 ^ 32"
  proof -
    have "int i < int (2 ^ 32)" using a by (simp only: of_nat_less_iff)
    then show ?thesis by simp
  qed
  then have m: "int i mod 2 ^ 32 = int i" by (simp add: mod_pos_pos_trivial)
  show ?thesis
  proof (cases "int i < 2 ^ 31")
    case True
    then show ?thesis by (simp add: int_of_size_t_def m)
  next
    case False
    have "(int i - 2 ^ 32) mod 2 ^ 32 = int i mod 2 ^ 32"
      by (simp add: mod_diff_right_eq [symmetric])
    then have "(int i - 2 ^ 32) mod 2 ^ 32 = int i" using m by simp
    then have "nat ((int i - 2 ^ 32) mod 2 ^ 32) = i" by simp
    moreover have "int_of_size_t i = int i - 2 ^ 32"
      unfolding int_of_size_t_def m Let_def using False by simp
    ultimately show ?thesis by (simp only: toUInt.simps)
  qed
qed

lemma saveState_setFlags_only:
  assumes "c < length rto"
  shows "saveState_loop (setFlags (\<lambda>j. j = c) rto) 0 = QVariant_Int (int_of_size_t c)"
  by (rule saveState_loop_first) (use assms in simp_all)

text \<open>
  Claim C10, as stated, fails where a later option has the value of the first: with the
  options A:1, B:2, C:1 and no button checked, \<open>saveState\<close> returns the invalid variant,
  and \<open>restoreState\<close> of it runs \<open>__setValue(1)\<close>, which leaves the last button checked,
  not the first.
\<close>

theorem restoreState_invalid_counterexample:
  "saveState (widgetWith [(''A'', False, SInt 1), (''B'', False, SInt 2), (''C'', False, SInt 1)])
     = QVariant_Invalid
   \<and> \<not> isChecked (fst (radioToOption (restoreState sample_host QVariant_Invalid
        (widgetWith [(''A'', False, SInt 1), (''B'', False, SInt 2), (''C'', False, SInt 1)])) ! 0))
   \<and> isChecked (fst (radioToOption (restoreState sample_host QVariant_Invalid
        (widgetWith [(''A'', False, SInt 1), (''B'', False, SInt 2), (''C'', False, SInt 1)])) ! 2))
   \<and> saveState (restoreState sample_host QVariant_Invalid
        (widgetWith [(''A'', False, SInt 1), (''B'', False, SInt 2), (''C'', False, SInt 1)]))
     = QVariant_Int 2"
proof -
  let ?w = "widgetWith [(''A'', False, SInt 1), (''B'', False, SInt 2), (''C'', False, SInt 1)]"
  have rto: "radioToOption ?w = [(\<lparr>buttonText = ''A'', isChecked = False\<rparr>, SInt 1),
       (\<lparr>buttonText = ''B'', isChecked = False\<rparr>, SInt 2),
       (\<lparr>buttonText = ''C'', isChecked = False\<rparr>, SInt 1)]"
    by (simp add: widgetWith_def RadioGroup_def)
  have s: "saveState ?w = QVariant_Invalid"
    by (simp add: saveState_def rto saveState_loop.simps)
  have r: "restoreState sample_host QVariant_Invalid ?w = slot_setValue sample_host (SInt 1) ?w"
    by (simp add: restoreState_def rto)
  have "radioToOption (slot_setValue sample_host (SInt 1) ?w)
      = setFlags (\<lambda>j. j = 2) (radioToOption ?w)"
    by (rule slot_setValue_match) (simp_all add: rto sample_host_def)
  then have f: "radioToOption (slot_setValue sample_host (SInt 1) ?w)
      = [(\<lparr>buttonText = ''A'', isChecked = False\<rparr>, SInt 1),
         (\<lparr>buttonText = ''B'', isChecked = False\<rparr>, SInt 2),
         (\<lparr>buttonText = ''C'', isChecked = True\<rparr>, SInt 1)]"
    by (simp add: rto setFlags_def upt_rec numeral_3_eq_3 numeral_2_eq_2)
  have s': "saveState (slot_setValue sample_host (SInt 1) ?w) = QVariant_Int 2"
    unfolding saveState_def f by (simp add: saveState_loop.simps int_of_size_t_def)
  show ?thesis unfolding r using s f s' by simp
qed

text \<open>
  Claim C10, amended. \<open>restoreState\<close> reads the invalid variant, which is what
  \<open>saveState\<close> returns when no button is checked, as index 0. On a widget with at least
  one option, at most one button checked and a first option that compares equal to
  itself, it runs \<open>__setValue\<close> with the first option: exactly one button is checked
  afterwards, the last one whose option equals the first option, which is the first
  button itself when no later option equals it. So \<open>saveState\<close> no longer returns the
  invalid variant: a widget with no button checked does not come back from \<open>saveState\<close>
  followed by \<open>restoreState\<close>.
\<close>

theorem restoreState_invalid_selects_first:
  assumes ne: "radioToOption s \<noteq> []"
    and amo: "atMostOneChecked (radioToOption s)"
    and refl: "equals h (snd (radioToOption s ! 0)) (snd (radioToOption s ! 0))"
  shows "toUInt QVariant_Invalid = 0
    \<and> restoreState h QVariant_Invalid s = slot_setValue h (snd (radioToOption s ! 0)) s
    \<and> (\<exists>c<length (radioToOption s).
          equals h (snd (radioToOption s ! c)) (snd (radioToOption s ! 0))
          \<and> (\<forall>i<length (radioToOption s).
                c < i \<longrightarrow> \<not> equals h (snd (radioToOption s ! i)) (snd (radioToOption s ! 0)))
          \<and> (\<forall>j<length (radioToOption s).
                isChecked (fst (radioToOption (restoreState h QVariant_Invalid s) ! j)) = (j = c))
          \<and> value_rg h (restoreState h QVariant_Invalid s) = snd (radioToOption s ! c)
          \<and> saveState (restoreState h QVariant_Invalid s) = QVariant_Int (int_of_size_t c))
    \<and> saveState (restoreState h QVariant_Invalid s) \<noteq> QVariant_Invalid
    \<and> ((\<forall>i<length (radioToOption s).
            0 < i \<longrightarrow> \<not> equals h (snd (radioToOption s ! i)) (snd (radioToOption s ! 0)))
        \<longrightarrow> isChecked (fst (radioToOption (restoreState h QVariant_Invalid s) ! 0))
          \<and> saveState (restoreState h QVariant_Invalid s) = QVariant_Int 0
          \<and> value_rg h (restoreState h QVariant_Invalid s) = snd (radioToOption s ! 0))
    \<and> ((\<forall>i<length (radioToOption s). \<not> isChecked (fst (radioToOption s ! i)))
        \<longrightarrow> saveState s = QVariant_Invalid
          \<and> saveState (restoreState h (saveState s) s) \<noteq> saveState s)"
proof -
  let ?rto = "radioToOption s"
  let ?v = "snd (?rto ! 0)"
  let ?s' = "slot_setValue h ?v s"
  have pos: "0 < length ?rto" using ne by simp
  have r: "restoreState h QVariant_Invalid s = ?s'"
    using pos by (simp add: restoreState_def)
  from slot_setValue_cases [OF amo, of h ?v] pos refl
  obtain c where c: "c < length ?rto" "equals h (snd (?rto ! c)) ?v"
      "\<forall>i<length ?rto. c < i \<longrightarrow> \<not> equals h (snd (?rto ! i)) ?v"
      "radioToOption ?s' = setFlags (\<lambda>j. j = c) ?rto"
    by blast
  have chk: "\<forall>j<length ?rto. isChecked (fst (radioToOption ?s' ! j)) = (j = c)"
    by (simp add: c(4))
  have val: "value_rg h ?s' = snd (?rto ! c)"
    using c(1) by (simp add: value_rg_def c(4) value_setFlags_only)
  have sv: "saveState ?s' = QVariant_Int (int_of_size_t c)"
    using c(1) by (simp add: saveState_def c(4) saveState_setFlags_only)
  have first: "c = 0"
    if "\<forall>i<length ?rto. 0 < i \<longrightarrow> \<not> equals h (snd (?rto ! i)) ?v"
    using that c(1,2) by (cases "c = 0") auto
  have none: "saveState s = QVariant_Invalid"
    if "\<forall>i<length ?rto. \<not> isChecked (fst (?rto ! i))"
    using that by (simp add: saveState_def saveState_loop_none)
  have ex: "\<exists>c<length ?rto. equals h (snd (?rto ! c)) ?v
          \<and> (\<forall>i<length ?rto. c < i \<longrightarrow> \<not> equals h (snd (?rto ! i)) ?v)
          \<and> (\<forall>j<length ?rto. isChecked (fst (radioToOption ?s' ! j)) = (j = c))
          \<and> value_rg h ?s' = snd (?rto ! c)
          \<and> saveState ?s' = QVariant_Int (int_of_size_t c)"
    using c(1,2,3) chk val sv by blast
  have z: "isChecked (fst (radioToOption ?s' ! 0)) \<and> saveState ?s' = QVariant_Int 0
      \<and> value_rg h ?s' = ?v"
    if "\<forall>i<length ?rto. 0 < i \<longrightarrow> \<not> equals h (snd (?rto ! i)) ?v"
    using first [OF that] chk val sv pos by (simp add: int_of_size_t_def)
  have nv: "saveState ?s' \<noteq> QVariant_Invalid" using sv by simp
  have rt: "saveState s = QVariant_Invalid \<and> saveState (restoreState h (saveState s) s) \<noteq> saveState s"
    if u: "\<forall>i<length ?rto. \<not> isChecked (fst (?rto ! i))"
    using none [OF u] nv r by simp
  show ?thesis
    unfolding r
  proof (intro conjI impI)
    show "toUInt QVariant_Invalid = 0" by simp
    show "?s' = ?s'" by (rule HOL.refl)
    show "\<exists>c<length ?rto. equals h (snd (?rto ! c)) ?v
          \<and> (\<forall>i<length ?rto. c < i \<longrightarrow> \<not> equals h (snd (?rto ! i)) ?v)
          \<and> (\<forall>j<length ?rto. isChecked (fst (radioToOption ?s' ! j)) = (j = c))
          \<and> value_rg h ?s' = snd (?rto ! c)
          \<and> saveState ?s' = QVariant_Int (int_of_size_t c)"
      by (rule ex)
    show "saveState ?s' \<noteq> QVariant_Invalid" by (rule nv)
  next
    assume a: "\<forall>i<length ?rto. 0 < i \<longrightarrow> \<not> equals h (snd (?rto ! i)) ?v"
    show "isChecked (fst (radioToOption ?s' ! 0))" using z [OF a] by simp
    show "saveState ?s' = QVariant_Int 0" using z [OF a] by simp
    show "value_rg h ?s' = ?v" using z [OF a] by simp
  next
    assume u: "\<forall>i<length ?rto. \<not> isChecked (fst (?rto ! i))"
    show "saveState s = QVariant_Invalid" by (rule rt [OF u, THEN conjunct1])
    show "saveState (restoreState h (saveState s) s) \<noteq> saveState s"
      by (rule rt [OF u, THEN conjunct2])
  qed
qed

theorem restoreState_invalid_selects_first_witness:
  "saveState (widgetWith [(''A'', False, SInt 1), (''B'', False, SInt 2)]) = QVariant_Invalid
   \<and> isChecked (fst (radioToOption (restoreState sample_host QVariant_Invalid
        (widgetWith [(''A'', False, SInt 1), (''B'', False, SInt 2)])) ! 0))
   \<and> saveState (restoreState sample_host QVariant_Invalid
        (widgetWith [(''A'', False, SInt 1), (''B'', False, SInt 2)])) = QVariant_Int 0
   \<and> value_rg sample_host (restoreState sample_host QVariant_Invalid
        (widgetWith [(''A'', False, SInt 1), (''B'', False, SInt 2)])) = SInt 1"
proof -
  let ?w = "widgetWith [(''A'', False, SInt 1), (''B'', False, SInt 2)]"
  have rto: "radioToOption ?w = [(\<lparr>buttonText = ''A'', isChecked = False\<rparr>, SInt 1),
       (\<lparr>buttonText = ''B'', isChecked = False\<rparr>, SInt 2)]"
    by (simp add: widgetWith_def RadioGroup_def)
  have ne: "radioToOption ?w \<noteq> []" by (simp add: rto)
  have amo: "atMostOneChecked (radioToOption ?w)" by (simp add: rto)
  have refl: "equals sample_host (snd (radioToOption ?w ! 0)) (snd (radioToOption ?w ! 0))"
    by (simp add: sample_host_def)
  have v0: "snd (radioToOption ?w ! 0) = SInt 1" by (simp add: rto)
  have later: "\<forall>i<length (radioToOption ?w).
      0 < i \<longrightarrow> \<not> equals sample_host (snd (radioToOption ?w ! i)) (snd (radioToOption ?w ! 0))"
    by (simp add: rto less_Suc_eq sample_host_def)
  have none: "\<forall>i<length (radioToOption ?w). \<not> isChecked (fst (radioToOption ?w ! i))"
    by (simp add: rto less_Suc_eq)
  note t = restoreState_invalid_selects_first [OF ne amo refl]
  note t5 = t [THEN conjunct2, THEN conjunct2, THEN conjunct2, THEN conjunct2, THEN conjunct1,
      THEN mp, OF later, unfolded v0]
  note t6 = t [THEN conjunct2, THEN conjunct2, THEN conjunct2, THEN conjunct2, THEN conjunct2,
      THEN mp, OF none, THEN conjunct1]
  show ?thesis
    using t5 t6 by (intro conjI) simp_all
qed

text \<open>
  Claim C7, as stated, fails: \<open>restoreState\<close> selects by the value of the option at the
  saved index, not by the index. With three options of the same value and the second
  button checked, \<open>saveState\<close> returns 1; \<open>restoreState\<close> of it runs \<open>__setValue\<close> with
  that value, which leaves the last button checked, and \<open>saveState\<close> then returns 2.
\<close>

theorem restore_saved_index_counterexample:
  "saveState (widgetWith [(''A'', False, SInt 1), (''B'', True, SInt 1), (''C'', False, SInt 1)])
     = QVariant_Int 1
   \<and> saveState (restoreState sample_host
        (saveState (widgetWith [(''A'', False, SInt 1), (''B'', True, SInt 1), (''C'', False, SInt 1)]))
        (widgetWith [(''A'', False, SInt 1), (''B'', True, SInt 1), (''C'', False, SInt 1)]))
     = QVariant_Int 2
   \<and> \<not> isChecked (fst (radioToOption (restoreState sample_host
        (saveState (widgetWith [(''A'', False, SInt 1), (''B'', True, SInt 1), (''C'', False, SInt 1)]))
        (widgetWith [(''A'', False, SInt 1), (''B'', True, SInt 1), (''C'', False, SInt 1)])) ! 1))
   \<and> isChecked (fst (radioToOption (restoreState sample_host
        (saveState (widgetWith [(''A'', False, SInt 1), (''B'', True, SInt 1), (''C'', False, SInt 1)]))
        (widgetWith [(''A'', False, SInt 1), (''B'', True, SInt 1), (''C'', False, SInt 1)])) ! 2))"
proof -
  let ?w = "widgetWith [(''A'', False, SInt 1), (''B'', True, SInt 1), (''C'', False, SInt 1)]"
  have rto: "radioToOption ?w = [(\<lparr>buttonText = ''A'', isChecked = False\<rparr>, SInt 1),
       (\<lparr>buttonText = ''B'', isChecked = True\<rparr>, SInt 1),
       (\<lparr>buttonText = ''C'', isChecked = False\<rparr>, SInt 1)]"
    by (simp add: widgetWith_def RadioGroup_def)
  have s: "saveState ?w = QVariant_Int 1"
    by (simp add: saveState_def rto saveState_loop.simps int_of_size_t_def)
  have r: "restoreState sample_host (QVariant_Int 1) ?w = slot_setValue sample_host (SInt 1) ?w"
    by (simp add: restoreState_def rto)
  have "radioToOption (slot_setValue sample_host (SInt 1) ?w)
      = setFlags (\<lambda>j. j = 2) (radioToOption ?w)"
    by (rule slot_setValue_match) (simp_all add: rto sample_host_def)
  then have f: "radioToOption (slot_setValue sample_host (SInt 1) ?w)
      = [(\<lparr>buttonText = ''A'', isChecked = False\<rparr>, SInt 1),
         (\<lparr>buttonText = ''B'', isChecked = False\<rparr>, SInt 1),
         (\<lparr>buttonText = ''C'', isChecked = True\<rparr>, SInt 1)]"
    by (simp add: rto setFlags_def upt_rec numeral_3_eq_3 numeral_2_eq_2)
  have s': "saveState (slot_setValue sample_host (SInt 1) ?w) = QVariant_Int 2"
    unfolding saveState_def f by (simp add: saveState_loop.simps int_of_size_t_def)
  show ?thesis unfolding s r using f s' by simp
qed

text \<open>
  Claim C7, amended. Let the button at index \<open>i\<close> (below \<open>2 ^ 32\<close>, the range of
  \<open>toUInt\<close>) be the checked one, and let the option at \<open>i\<close> compare equal to itself.
  \<open>saveState\<close> returns \<open>i\<close>, and \<open>restoreState\<close> of it runs \<open>__setValue\<close> with the
  option at \<open>i\<close>. If no later option of the list compares equal to the option at \<open>i\<close>,
  the buttons are left as they were, the button at \<open>i\<close> checked and no other: \<open>saveState\<close>
  returns the same index and \<open>value()\<close> the same value. If a later option compares equal
  to it, the selection moves to the last such option: its button is the only one checked
  afterwards, \<open>value()\<close> returns its option and \<open>saveState\<close> its index.
\<close>

theorem restore_saved_index:
  assumes i: "i < length (radioToOption s)" and small: "i < 2 ^ 32"
    and amo: "atMostOneChecked (radioToOption s)"
    and checked: "isChecked (fst (radioToOption s ! i))"
    and refl: "equals h (snd (radioToOption s ! i)) (snd (radioToOption s ! i))"
  shows "saveState s = QVariant_Int (int_of_size_t i)
    \<and> restoreState h (saveState s) s = slot_setValue h (snd (radioToOption s ! i)) s
    \<and> ((\<forall>j<length (radioToOption s).
            i < j \<longrightarrow> \<not> equals h (snd (radioToOption s ! j)) (snd (radioToOption s ! i)))
        \<longrightarrow> saveState (restoreState h (saveState s) s) = saveState s
          \<and> value_rg h (restoreState h (saveState s) s) = value_rg h s
          \<and> radioToOption (restoreState h (saveState s) s) = radioToOption s
          \<and> (\<forall>j<length (radioToOption s).
                isChecked (fst (radioToOption (restoreState h (saveState s) s) ! j)) = (j = i)))
    \<and> (\<forall>c<length (radioToOption s).
          i < c \<and> equals h (snd (radioToOption s ! c)) (snd (radioToOption s ! i))
          \<and> (\<forall>j<length (radioToOption s).
                c < j \<longrightarrow> \<not> equals h (snd (radioToOption s ! j)) (snd (radioToOption s ! i)))
          \<longrightarrow> (\<forall>j<length (radioToOption s).
                 isChecked (fst (radioToOption (restoreState h (saveState s) s) ! j)) = (j = c))
              \<and> value_rg h (restoreState h (saveState s) s) = snd (radioToOption s ! c)
              \<and> saveState (restoreState h (saveState s) s) = QVariant_Int (int_of_size_t c))"
proof -
  let ?rto = "radioToOption s"
  let ?v = "snd (?rto ! i)"
  let ?s' = "slot_setValue h ?v s"
  have only: "setFlags (\<lambda>k. k = i) ?rto = ?rto"
    by (rule only_checked_is_setFlags [OF amo i checked])
  have uniq: "j = i" if "j < length ?rto" "isChecked (fst (?rto ! j))" for j
    by (rule atMostOne_unique [OF amo that(1) i that(2) checked])
  have first: "\<forall>j<i. \<not> isChecked (fst (?rto ! j))"
  proof (intro allI impI notI)
    fix j assume "j < i" "isChecked (fst (?rto ! j))"
    then show False using uniq [of j] i by simp
  qed
  have sv: "saveState s = QVariant_Int (int_of_size_t i)"
    using i checked first by (simp add: saveState_def saveState_loop_first)
  have r: "restoreState h (saveState s) s = ?s'"
    using i small by (simp add: sv restoreState_def toUInt_int_of_size_t del: toUInt.simps)
  have chk: "\<forall>j<length ?rto. isChecked (fst (?rto ! j)) = (j = i)"
    using uniq checked by blast
  have kept: "saveState ?s' = saveState s \<and> value_rg h ?s' = value_rg h s
      \<and> radioToOption ?s' = ?rto
      \<and> (\<forall>j<length ?rto. isChecked (fst (radioToOption ?s' ! j)) = (j = i))"
    if later: "\<forall>j<length ?rto. i < j \<longrightarrow> \<not> equals h (snd (?rto ! j)) ?v"
  proof -
    have "radioToOption ?s' = setFlags (\<lambda>j. j = i) ?rto"
      by (rule slot_setValue_match [OF amo i refl later])
    then have same: "radioToOption ?s' = ?rto" using only by simp
    show ?thesis using same chk by (simp add: saveState_def value_rg_def)
  qed
  have moved: "(\<forall>j<length ?rto. isChecked (fst (radioToOption ?s' ! j)) = (j = c))
      \<and> value_rg h ?s' = snd (?rto ! c)
      \<and> saveState ?s' = QVariant_Int (int_of_size_t c)"
    if c: "c < length ?rto" and eq: "equals h (snd (?rto ! c)) ?v"
      and last: "\<forall>j<length ?rto. c < j \<longrightarrow> \<not> equals h (snd (?rto ! j)) ?v" for c
  proof -
    have m: "radioToOption ?s' = setFlags (\<lambda>j. j = c) ?rto"
      by (rule slot_setValue_match [OF amo c eq last])
    have "value_rg h ?s' = snd (?rto ! c)"
      using c by (simp add: value_rg_def m value_setFlags_only)
    moreover have "saveState ?s' = QVariant_Int (int_of_size_t c)"
      using c by (simp add: saveState_def m saveState_setFlags_only)
    ultimately show ?thesis by (simp add: m)
  qed
  show ?thesis
    unfolding r
  proof (intro conjI allI impI)
    show "saveState s = QVariant_Int (int_of_size_t i)" by (rule sv)
    show "?s' = ?s'" by (rule HOL.refl)
  next
    assume later: "\<forall>j<length ?rto. i < j \<longrightarrow> \<not> equals h (snd (?rto ! j)) ?v"
    show "saveState ?s' = saveState s" by (rule kept [OF later, THEN conjunct1])
    show "value_rg h ?s' = value_rg h s"
      by (rule kept [OF later, THEN conjunct2, THEN conjunct1])
    show "radioToOption ?s' = ?rto"
      by (rule kept [OF later, THEN conjunct2, THEN conjunct2, THEN conjunct1])
    fix j assume "j < length ?rto"
    then show "isChecked (fst (radioToOption ?s' ! j)) = (j = i)"
      using kept [OF later, THEN conjunct2, THEN conjunct2, THEN conjunct2] by simp
  next
    fix c
    assume c: "c < length ?rto"
      and a: "i < c \<and> equals h (snd (?rto ! c)) ?v
          \<and> (\<forall>j<length ?rto. c < j \<longrightarrow> \<not> equals h (snd (?rto ! j)) ?v)"
    note mv = moved [OF c a [THEN conjunct2, THEN conjunct1] a [THEN conjunct2, THEN conjunct2]]
    show "value_rg h ?s' = snd (?rto ! c)" by (rule mv [THEN conjunct2, THEN conjunct1])
    show "saveState ?s' = QVariant_Int (int_of_size_t c)"
      by (rule mv [THEN conjunct2, THEN conjunct2])
    fix j assume "j < length ?rto"
    then show "isChecked (fst (radioToOption ?s' ! j)) = (j = c)"
      using mv [THEN conjunct1] by simp
  qed
qed

theorem restore_saved_index_witness:
  "saveState (widgetWith [(''A'', False, SInt 1), (''B'', True, SInt 1), (''C'', False, SInt 2)])
     = QVariant_Int 1
   \<and> saveState (restoreState sample_host
      (saveState (widgetWith [(''A'', False, SInt 1), (''B'', True, SInt 1), (''C'', False, SInt 2)]))
      (widgetWith [(''A'', False, SInt 1), (''B'', True, SInt 1), (''C'', False, SInt 2)]))
     = saveState (widgetWith [(''A'', False, SInt 1), (''B'', True, SInt 1), (''C'', False, SInt 2)])
   \<and> value_rg sample_host (restoreState sample_host
      (saveState (widgetWith [(''A'', False, SInt 1), (''B'', True, SInt 1), (''C'', False, SInt 2)]))
      (widgetWith [(''A'', False, SInt 1), (''B'', True, SInt 1), (''C'', False, SInt 2)]))
     = SInt 1
   \<and> radioToOption (restoreState sample_host
      (saveState (widgetWith [(''A'', False, SInt 1), (''B'', True, SInt 1), (''C'', False, SInt 2)]))
      (widgetWith [(''A'', False, SInt 1), (''B'', True, SInt 1), (''C'', False, SInt 2)]))
     = radioToOption (widgetWith [(''A'', False, SInt 1), (''B'', True, SInt 1), (''C'', False, SInt 2)])
   \<and> saveState (restoreState sample_host
      (saveState (widgetWith [(''A'', True, SInt 1), (''B'', False, SInt 2), (''C'', False, SInt 1)]))
      (widgetWith [(''A'', True, SInt 1), (''B'', False, SInt 2), (''C'', False, SInt 1)]))
     = QVariant_Int 2"
proof -
  let ?w = "widgetWith [(''A'', False, SInt 1), (''B'', True, SInt 1), (''C'', False, SInt 2)]"
  let ?u = "widgetWith [(''A'', True, SInt 1), (''B'', False, SInt 2), (''C'', False, SInt 1)]"
  have rto: "radioToOption ?w = [(\<lparr>buttonText = ''A'', isChecked = False\<rparr>, SInt 1),
         (\<lparr>buttonText = ''B'', isChecked = True\<rparr>, SInt 1),
         (\<lparr>buttonText = ''C'', isChecked = False\<rparr>, SInt 2)]"
    and rtu: "radioToOption ?u = [(\<lparr>buttonText = ''A'', isChecked = True\<rparr>, SInt 1),
         (\<lparr>buttonText = ''B'', isChecked = False\<rparr>, SInt 2),
         (\<lparr>buttonText = ''C'', isChecked = False\<rparr>, SInt 1)]"
    by (simp_all add: widgetWith_def RadioGroup_def)
  have i: "1 < length (radioToOption ?w)" unfolding rto by simp
  have small: "(1::nat) < 2 ^ 32" by simp
  have amo: "atMostOneChecked (radioToOption ?w)" unfolding rto by simp
  have checked: "isChecked (fst (radioToOption ?w ! 1))" unfolding rto by simp
  have refl: "equals sample_host (snd (radioToOption ?w ! 1)) (snd (radioToOption ?w ! 1))"
    by (simp add: sample_host_def)
  have later: "\<forall>j<length (radioToOption ?w).
        1 < j \<longrightarrow> \<not> equals sample_host (snd (radioToOption ?w ! j)) (snd (radioToOption ?w ! 1))"
    unfolding rto by (simp add: sample_host_def less_Suc_eq numeral_3_eq_3 numeral_2_eq_2)
  note t = restore_saved_index [OF i small amo checked refl]
  note k = t [THEN conjunct2, THEN conjunct2, THEN conjunct1, THEN mp, OF later]
  have v: "value_rg sample_host ?w = SInt 1"
    unfolding value_rg_def rto by simp
  have c: "int_of_size_t 1 = 1" by (simp add: int_of_size_t_def)
  have i0: "0 < length (radioToOption ?u)" unfolding rtu by simp
  have small0: "(0::nat) < 2 ^ 32" by simp
  have amo0: "atMostOneChecked (radioToOption ?u)" unfolding rtu by simp
  have checked0: "isChecked (fst (radioToOption ?u ! 0))" unfolding rtu by simp
  have refl0: "equals sample_host (snd (radioToOption ?u ! 0)) (snd (radioToOption ?u ! 0))"
    by (simp add: sample_host_def)
  have c2: "2 < length (radioToOption ?u)" unfolding rtu by simp
  have last2: "0 < (2::nat)
      \<and> equals sample_host (snd (radioToOption ?u ! 2)) (snd (radioToOption ?u ! 0))
      \<and> (\<forall>j<length (radioToOption ?u).
            2 < j \<longrightarrow> \<not> equals sample_host (snd (radioToOption ?u ! j)) (snd (radioToOption ?u ! 0)))"
    unfolding rtu by (simp add: sample_host_def less_Suc_eq numeral_3_eq_3 numeral_2_eq_2)
  have d: "int_of_size_t 2 = 2" by (simp add: int_of_size_t_def)
  note u = restore_saved_index [OF i0 small0 amo0 checked0 refl0]
  note m = u [THEN conjunct2, THEN conjunct2, THEN conjunct2, THEN spec, THEN mp, OF c2,
      THEN mp, OF last2]
  show ?thesis
    using t [THEN conjunct1, unfolded c] k [THEN conjunct1]
      k [THEN conjunct2, THEN conjunct1, unfolded v]
      k [THEN conjunct2, THEN conjunct2, THEN conjunct1]
      m [THEN conjunct2, THEN conjunct2, unfolded d]
    by (intro conjI)
qed

subsection \<open>Replacing the options\<close>

lemma setOptions_loop_wellFormed:
  "\<forall>entry\<in>set options. wellFormed h entry \<Longrightarrow> \<exists>s'. setOptions_loop h options s = Returns s'"
proof (induction options arbitrary: s)
  case Nil
  then show ?case by simp
next
  case (Cons entry rest)
  from Cons.prems obtain v t where v: "asVector h entry = Some v" and l: "length v = 2"
    and t: "asString h (v ! 0) = Some t"
    by (auto simp: wellFormed_def canConvert_QString_def split: option.splits)
  have "setOptions_loop h (entry # rest) s = setOptions_loop h rest
      (s\<lparr>radioToOption := radioToOption s @ [(\<lparr>buttonText = t, isChecked = False\<rparr>, v ! 1)]\<rparr>)"
    using v l t by simp
  then show ?case using Cons.IH Cons.prems by simp
qed

lemma processEvents_setOptions:
  assumes wf: "\<forall>entry\<in>set options. wellFormed h entry" and idle: "queued s = []"
  shows "\<exists>new. list_all2 (builtFrom h) options new
    \<and> processEvents h (invokeMethod (Call_setOptions options) s)
        = Returns (slot_setValue h (value_rg h s) (s\<lparr>radioToOption := new\<rparr>))"
proof -
  let ?s0 = "invokeMethod (Call_setOptions options) s"
  from setOptions_loop_wellFormed [OF wf, of "clear s"] obtain s1 where
    l: "setOptions_loop h options (clear s) = Returns s1" by blast
  from setOptions_loop_Returns [OF l] obtain new where
    n: "s1 = s\<lparr>radioToOption := new\<rparr>" and r: "list_all2 (builtFrom h) options new"
    by (auto simp: clear_def)
  let ?s1 = "s\<lparr>radioToOption := new\<rparr>"
  have q: "queued ?s0 = [Call_setOptions options]"
    using idle by (simp add: invokeMethod_def)
  have e: "?s0\<lparr>queued := []\<rparr> = s"
    using idle by (simp add: invokeMethod_def)
  have d: "slot_setOptions h options s = Returns (setValue (value_rg h s) ?s1)"
    using l n by (simp add: slot_setOptions_def)
  have "processEvents h ?s0 = processEvents h (setValue (value_rg h s) ?s1)"
    by (subst processEvents.simps) (simp add: q e d)
  also have "\<dots> = Returns (slot_setValue h (value_rg h s) ?s1)"
    using idle by (simp add: processEvents_setValue)
  finally show ?thesis using r by blast
qed

lemma processEvents_titles:
  assumes "\<forall>c\<in>set q. \<exists>t. c = Call_handleSetTitle t"
  shows "\<exists>g. processEvents h (s\<lparr>queued := q @ rest\<rparr>)
      = processEvents h (s\<lparr>groupTitle := g, queued := rest\<rparr>)"
  using assms
proof (induction q arbitrary: s)
  case Nil
  have "s\<lparr>queued := rest\<rparr> = s\<lparr>groupTitle := groupTitle s, queued := rest\<rparr>" by simp
  then show ?case by (intro exI [of _ "groupTitle s"]) simp
next
  case (Cons c q)
  from Cons.prems obtain t where c: "c = Call_handleSetTitle t" by auto
  have rest: "\<forall>c\<in>set q. \<exists>t. c = Call_handleSetTitle t" using Cons.prems by simp
  have "processEvents h (s\<lparr>queued := (c # q) @ rest\<rparr>)
      = processEvents h ((s\<lparr>groupTitle := t\<rparr>)\<lparr>queued := q @ rest\<rparr>)"
  proof -
    have e: "(s\<lparr>queued := q @ rest\<rparr>)\<lparr>groupTitle := t\<rparr>
        = (s\<lparr>groupTitle := t\<rparr>)\<lparr>queued := q @ rest\<rparr>"
      by simp
    show ?thesis
      by (subst processEvents.simps) (simp add: c handleSetTitle_def e)
  qed
  moreover from Cons.IH [OF rest, of "s\<lparr>groupTitle := t\<rparr>"] obtain g where
    "processEvents h ((s\<lparr>groupTitle := t\<rparr>)\<lparr>queued := q @ rest\<rparr>)
      = processEvents h (s\<lparr>groupTitle := g, queued := rest\<rparr>)"
    by auto
  ultimately show ?case by (intro exI [of _ g]) simp
qed

lemma processEvents_setOptions_titles:
  assumes wf: "\<forall>entry\<in>set options. wellFormed h entry"
    and titles: "\<forall>c\<in>set (queued s). \<exists>t. c = Call_handleSetTitle t"
  shows "\<exists>new g. list_all2 (builtFrom h) options new
    \<and> processEvents h (invokeMethod (Call_setOptions options) s)
        = Returns (slot_setValue h (value_rg h s)
            (s\<lparr>groupTitle := g, radioToOption := new, queued := []\<rparr>))"
proof -
  from processEvents_titles [OF titles, where h = h and s = s and rest = "[Call_setOptions options]"] obtain g where
    g: "processEvents h (s\<lparr>queued := queued s @ [Call_setOptions options]\<rparr>)
      = processEvents h (s\<lparr>groupTitle := g, queued := [Call_setOptions options]\<rparr>)"
    by blast
  let ?s' = "s\<lparr>groupTitle := g, queued := []\<rparr>"
  have idle: "queued ?s' = []" by simp
  from processEvents_setOptions [OF wf idle] obtain new where
    r: "list_all2 (builtFrom h) options new"
    and p: "processEvents h (invokeMethod (Call_setOptions options) ?s')
        = Returns (slot_setValue h (value_rg h ?s') (?s'\<lparr>radioToOption := new\<rparr>))"
    by blast
  have v: "value_rg h ?s' = value_rg h s" by (simp add: value_rg_def)
  have i: "invokeMethod (Call_setOptions options) ?s'
      = s\<lparr>groupTitle := g, queued := [Call_setOptions options]\<rparr>"
    by (simp add: invokeMethod_def)
  have t: "?s'\<lparr>radioToOption := new\<rparr> = s\<lparr>groupTitle := g, radioToOption := new, queued := []\<rparr>"
    by simp
  have "processEvents h (invokeMethod (Call_setOptions options) s)
      = Returns (slot_setValue h (value_rg h s)
            (s\<lparr>groupTitle := g, radioToOption := new, queued := []\<rparr>))"
    using p unfolding v i t invokeMethod_def [of _ s] g .
  then show ?thesis using r by blast
qed

text \<open>
  Claim C3, as stated, fails on a widget with an earlier \<open>setOptions\<close> or \<open>setValue\<close>
  still pending: \<open>__setOptions\<close> posts the re-application of the old value behind the
  calls that are already posted, and reads the old value only when it runs.
  \<^item> With the button A:1 checked and an earlier \<open>setOptions\<close> (of X:1) pending, \<open>value()\<close>
    is 1, and \<open>setOptions\<close> with Y:1 ends with no button checked and \<open>value()\<close> null,
    although the new option Y has the value 1. The second \<open>__setOptions\<close> runs before the
    \<open>__setValue(1)\<close> of the first, reads the null value of the new, unchecked button X,
    and its \<open>__setValue(null)\<close> runs last.
  \<^item> With the options A:1, B:2, A checked and \<open>setValue(2)\<close> pending, \<open>value()\<close> is 1,
    and \<open>setOptions\<close> with X:1 ends with no button checked and \<open>value()\<close> null:
    \<open>__setValue(2)\<close> runs first, and \<open>__setOptions\<close> re-applies 2.
\<close>

theorem setOptions_pending_counterexample:
  "value_rg sample_host (invokeMethod (Call_setOptions [SVector [SString ''X'', SInt 1]])
        (widgetWith [(''A'', True, SInt 1)])) = SInt 1
   \<and> setOptions sample_host [SVector [SString ''Y'', SInt 1]]
        (invokeMethod (Call_setOptions [SVector [SString ''X'', SInt 1]])
          (widgetWith [(''A'', True, SInt 1)]))
     = Returns (invokeMethod (Call_setOptions [SVector [SString ''Y'', SInt 1]])
        (invokeMethod (Call_setOptions [SVector [SString ''X'', SInt 1]])
          (widgetWith [(''A'', True, SInt 1)])))
   \<and> processEvents sample_host
        (invokeMethod (Call_setOptions [SVector [SString ''Y'', SInt 1]])
          (invokeMethod (Call_setOptions [SVector [SString ''X'', SInt 1]])
            (widgetWith [(''A'', True, SInt 1)])))
     = Returns \<lparr>groupTitle = [], layoutDirection = TopToBottom,
          radioToOption = [(\<lparr>buttonText = ''Y'', isChecked = False\<rparr>, SInt 1)],
          queued = [], emitted = [SInt 1]\<rparr>
   \<and> value_rg sample_host \<lparr>groupTitle = [], layoutDirection = TopToBottom,
          radioToOption = [(\<lparr>buttonText = ''Y'', isChecked = False\<rparr>, SInt 1)],
          queued = [], emitted = [SInt 1]\<rparr> = SNull
   \<and> value_rg sample_host (setValue (SInt 2)
        (widgetWith [(''A'', True, SInt 1), (''B'', False, SInt 2)])) = SInt 1
   \<and> setOptions sample_host [SVector [SString ''X'', SInt 1]]
        (setValue (SInt 2) (widgetWith [(''A'', True, SInt 1), (''B'', False, SInt 2)]))
     = Returns (invokeMethod (Call_setOptions [SVector [SString ''X'', SInt 1]])
        (setValue (SInt 2) (widgetWith [(''A'', True, SInt 1), (''B'', False, SInt 2)])))
   \<and> processEvents sample_host
        (invokeMethod (Call_setOptions [SVector [SString ''X'', SInt 1]])
          (setValue (SInt 2) (widgetWith [(''A'', True, SInt 1), (''B'', False, SInt 2)])))
     = Returns \<lparr>groupTitle = [], layoutDirection = TopToBottom,
          radioToOption = [(\<lparr>buttonText = ''X'', isChecked = False\<rparr>, SInt 1)],
          queued = [], emitted = [SInt 2]\<rparr>
   \<and> value_rg sample_host \<lparr>groupTitle = [], layoutDirection = TopToBottom,
          radioToOption = [(\<lparr>buttonText = ''X'', isChecked = False\<rparr>, SInt 1)],
          queued = [], emitted = [SInt 2]\<rparr> = SNull"
  by (simp add: processEvents.simps invokeMethod_def widgetWith_def RadioGroup_def
      slot_setOptions_def clear_def setValue_def slot_setValue_def setValue_step_def
      setChecked_def setUnchecked_def queryCheckedButton_def writeChecked_def
      handleRadioChanged_def value_rg_def sample_host_def setOptions_def
      canConvert_QString_def upt_rec numeral_2_eq_2)

text \<open>
  Claim C3, amended. On a widget where the posted calls still pending, if any, are title
  changes (no earlier \<open>setValue\<close> or \<open>setOptions\<close> is pending), \<open>setOptions\<close> with
  well-formed options returns, and the event loop then runs \<open>__setOptions\<close> and the
  \<open>__setValue\<close> of the old value that it posts, and returns. Afterwards the buttons are
  those of the options, in order, and at most one is checked. If some new option compares
  equal to the value reported before, a button is checked and \<open>value()\<close> returns an
  option that compares equal to that value (the value itself, when only identical objects
  compare equal to it); otherwise no button is checked and \<open>value()\<close> returns the null
  object.
\<close>

theorem setOptions_keeps_value:
  assumes wf: "\<forall>entry\<in>set options. wellFormed h entry"
    and titles: "\<forall>c\<in>set (queued s). \<exists>t. c = Call_handleSetTitle t"
  shows "\<exists>s1 s2. setOptions h options s = Returns s1 \<and> processEvents h s1 = Returns s2
    \<and> queued s2 = []
    \<and> list_all2 (\<lambda>entry pair. builtFrom h entry ((fst pair)\<lparr>isChecked := False\<rparr>, snd pair))
         options (radioToOption s2)
    \<and> atMostOneChecked (radioToOption s2)
    \<and> (if \<exists>pair\<in>set (radioToOption s2). equals h (snd pair) (value_rg h s)
       then (\<exists>pair\<in>set (radioToOption s2). isChecked (fst pair))
          \<and> equals h (value_rg h s2) (value_rg h s)
          \<and> ((\<forall>pair\<in>set (radioToOption s2).
                 equals h (snd pair) (value_rg h s) \<longrightarrow> snd pair = value_rg h s)
               \<longrightarrow> value_rg h s2 = value_rg h s)
       else (\<forall>pair\<in>set (radioToOption s2). \<not> isChecked (fst pair))
          \<and> value_rg h s2 = nullObject h)"
proof -
  let ?old = "value_rg h s"
  let ?s1 = "invokeMethod (Call_setOptions options) s"
  from processEvents_setOptions_titles [OF wf titles] obtain new g where
    r: "list_all2 (builtFrom h) options new"
    and p: "processEvents h ?s1 = Returns (slot_setValue h ?old
        (s\<lparr>groupTitle := g, radioToOption := new, queued := []\<rparr>))"
    by blast
  let ?t = "s\<lparr>groupTitle := g, radioToOption := new, queued := []\<rparr>"
  let ?s2 = "slot_setValue h ?old ?t"
  let ?n = "length new"
  have un: "\<forall>p\<in>set new. \<not> isChecked (fst p)" by (rule built_all_unchecked [OF r])
  have un': "\<forall>j<?n. \<not> isChecked (fst (new ! j))" using un by (simp add: all_set_conv_all_nth)
  have amo: "atMostOneChecked (radioToOption ?t)" using un by (simp add: unchecked_atMostOne)
  have s1: "setOptions h options s = Returns ?s1"
    using wf validate_None_iff [of h options] by (simp add: setOptions_def)
  have q: "queued ?s2 = []" by simp
  have amo2: "atMostOneChecked (radioToOption ?s2)" by (rule slot_setValue_atMostOne [OF amo])
  have new_id: "setFlags (\<lambda>j. False) new = new"
    by (rule setFlags_id) (use un' in simp)
  from slot_setValue_cases [OF amo, of h ?old] consider
    (match) c where "c < ?n" "equals h (snd (new ! c)) ?old"
      "radioToOption ?s2 = setFlags (\<lambda>j. j = c) new"
    | (nomatch) "\<forall>i<?n. \<not> equals h (snd (new ! i)) ?old" "radioToOption ?s2 = new"
    using new_id by (auto split: if_splits)
  then show ?thesis
  proof cases
    case match
    let ?rto2 = "setFlags (\<lambda>j. j = c) new"
    have rel: "list_all2 (\<lambda>entry pair. builtFrom h entry ((fst pair)\<lparr>isChecked := False\<rparr>, snd pair))
         options ?rto2"
      unfolding list_all2_conv_all_nth
    proof (intro conjI allI impI)
      show "length options = length ?rto2" using r by (simp add: list_all2_lengthD)
      fix i assume "i < length options"
      then have i: "i < ?n" using r by (simp add: list_all2_lengthD)
      have b: "builtFrom h (options ! i) (new ! i)"
        using r i by (simp add: list_all2_conv_all_nth)
      then have "((fst (new ! i))\<lparr>isChecked := False\<rparr>, snd (new ! i)) = new ! i"
        by (auto simp: builtFrom_def split: option.splits)
      then show "builtFrom h (options ! i) ((fst (?rto2 ! i))\<lparr>isChecked := False\<rparr>, snd (?rto2 ! i))"
        using b i by simp
    qed
    have mem: "?rto2 ! c \<in> set ?rto2" using match(1) by (simp del: nth_setFlags)
    have ex: "\<exists>pair\<in>set ?rto2. equals h (snd pair) ?old"
      using mem match(1,2) by (intro bexI [of _ "?rto2 ! c"]) simp_all
    have ck: "\<exists>pair\<in>set ?rto2. isChecked (fst pair)"
      using mem match(1) by (intro bexI [of _ "?rto2 ! c"]) simp_all
    have "value_loop h (radioToOption ?s2) = snd (new ! c)"
      unfolding match(3) using match(1) by (rule value_setFlags_only)
    then have val: "value_rg h ?s2 = snd (new ! c)"
      by (simp only: value_rg_def [of h ?s2])
    have eq: "equals h (value_rg h ?s2) ?old" using val match(2) by simp
    have sc: "snd (?rto2 ! c) = snd (new ! c)" using match(1) by simp
    have idn: "value_rg h ?s2 = ?old"
      if a: "\<forall>pair\<in>set ?rto2. equals h (snd pair) ?old \<longrightarrow> snd pair = ?old"
    proof -
      have "equals h (snd (?rto2 ! c)) ?old \<longrightarrow> snd (?rto2 ! c) = ?old"
        using a mem by (rule bspec)
      then have "snd (new ! c) = ?old" unfolding sc using match(2) by (rule mp)
      then show ?thesis using val by (rule trans [rotated])
    qed
    have fin: "if \<exists>pair\<in>set (radioToOption ?s2). equals h (snd pair) ?old
       then (\<exists>pair\<in>set (radioToOption ?s2). isChecked (fst pair))
          \<and> equals h (value_rg h ?s2) ?old
          \<and> ((\<forall>pair\<in>set (radioToOption ?s2). equals h (snd pair) ?old \<longrightarrow> snd pair = ?old)
               \<longrightarrow> value_rg h ?s2 = ?old)
       else (\<forall>pair\<in>set (radioToOption ?s2). \<not> isChecked (fst pair))
          \<and> value_rg h ?s2 = nullObject h"
      unfolding match(3) if_P [OF ex]
    proof (intro conjI impI)
      show "\<exists>pair\<in>set ?rto2. isChecked (fst pair)" by (rule ck)
      show "equals h (value_rg h ?s2) ?old" by (rule eq)
      assume "\<forall>pair\<in>set ?rto2. equals h (snd pair) ?old \<longrightarrow> snd pair = ?old"
      then show "value_rg h ?s2 = ?old" by (rule idn)
    qed
    have rel2: "list_all2 (\<lambda>entry pair. builtFrom h entry ((fst pair)\<lparr>isChecked := False\<rparr>, snd pair))
         options (radioToOption ?s2)"
      unfolding match(3) by (rule rel)
    show ?thesis
      by (intro exI [of _ ?s1] exI [of _ ?s2] conjI) (rule s1 p q rel2 amo2 fin)+
  next
    case nomatch
    have rel: "list_all2 (\<lambda>entry pair. builtFrom h entry ((fst pair)\<lparr>isChecked := False\<rparr>, snd pair))
         options new"
    proof (rule list_all2_mono [OF r])
      fix entry pair
      assume b: "builtFrom h entry pair"
      then have "((fst pair)\<lparr>isChecked := False\<rparr>, snd pair) = pair"
        by (auto simp: builtFrom_def split: option.splits)
      then show "builtFrom h entry ((fst pair)\<lparr>isChecked := False\<rparr>, snd pair)"
        using b by simp
    qed
    have nex: "\<not> (\<exists>pair\<in>set new. equals h (snd pair) ?old)"
      using nomatch(1) by (simp add: all_set_conv_all_nth)
    have "value_loop h (radioToOption ?s2) = nullObject h"
      unfolding nomatch(2) using un by (rule value_loop_none)
    then have val: "value_rg h ?s2 = nullObject h"
      by (simp only: value_rg_def [of h ?s2])
    have fin: "if \<exists>pair\<in>set (radioToOption ?s2). equals h (snd pair) ?old
       then (\<exists>pair\<in>set (radioToOption ?s2). isChecked (fst pair))
          \<and> equals h (value_rg h ?s2) ?old
          \<and> ((\<forall>pair\<in>set (radioToOption ?s2). equals h (snd pair) ?old \<longrightarrow> snd pair = ?old)
               \<longrightarrow> value_rg h ?s2 = ?old)
       else (\<forall>pair\<in>set (radioToOption ?s2). \<not> isChecked (fst pair))
          \<and> value_rg h ?s2 = nullObject h"
      unfolding nomatch(2) if_not_P [OF nex]
    proof (intro conjI)
      show "\<forall>pair\<in>set new. \<not> isChecked (fst pair)" by (rule un)
      show "value_rg h ?s2 = nullObject h" by (rule val)
    qed
    have rel2: "list_all2 (\<lambda>entry pair. builtFrom h entry ((fst pair)\<lparr>isChecked := False\<rparr>, snd pair))
         options (radioToOption ?s2)"
      unfolding nomatch(2) by (rule rel)
    show ?thesis
      by (intro exI [of _ ?s1] exI [of _ ?s2] conjI) (rule s1 p q rel2 amo2 fin)+
  qed
qed

theorem setOptions_keeps_value_witness:
  "(\<exists>s1 s2. setOptions sample_host [SVector [SString ''X'', SInt 7], SVector [SString ''Y'', SInt 42]]
        (setTitle ''Pick''
          (widgetWith [(''Opt0'', True, SInt 42), (''Opt1'', False, SString ''xyz'')])) = Returns s1
      \<and> processEvents sample_host s1 = Returns s2
      \<and> value_rg sample_host s2 = SInt 42
      \<and> map (\<lambda>p. isChecked (fst p)) (radioToOption s2) = [False, True])
   \<and> (\<exists>s1 s2. setOptions sample_host [SVector [SString ''X'', SInt 7]]
        (widgetWith [(''Opt0'', True, SInt 42), (''Opt1'', False, SString ''xyz'')]) = Returns s1
      \<and> processEvents sample_host s1 = Returns s2
      \<and> value_rg sample_host s2 = SNull
      \<and> map (\<lambda>p. isChecked (fst p)) (radioToOption s2) = [False])"
proof -
  let ?u = "widgetWith [(''Opt0'', True, SInt 42), (''Opt1'', False, SString ''xyz'')]"
  let ?w = "setTitle ''Pick'' ?u"
  let ?o1 = "[SVector [SString ''X'', SInt 7], SVector [SString ''Y'', SInt 42]]"
  let ?o2 = "[SVector [SString ''X'', SInt 7]]"
  have titles_w: "\<forall>c\<in>set (queued ?w). \<exists>t. c = Call_handleSetTitle t"
    by (simp add: setTitle_def invokeMethod_def widgetWith_def RadioGroup_def)
  have titles_u: "\<forall>c\<in>set (queued ?u). \<exists>t. c = Call_handleSetTitle t"
    by (simp add: widgetWith_def RadioGroup_def)
  have old_w: "value_rg sample_host ?w = SInt 42"
    by (simp add: value_rg_def setTitle_def invokeMethod_def widgetWith_def RadioGroup_def)
  have old_u: "value_rg sample_host ?u = SInt 42"
    by (simp add: value_rg_def widgetWith_def RadioGroup_def)
  have wf1: "\<forall>entry\<in>set ?o1. wellFormed sample_host entry"
    by (simp add: wellFormed_def canConvert_QString_def sample_host_def)
  have wf2: "\<forall>entry\<in>set ?o2. wellFormed sample_host entry"
    by (simp add: wellFormed_def canConvert_QString_def sample_host_def)
  have eq: "equals sample_host = (\<lambda>a b. a = b)" and nl: "nullObject sample_host = SNull"
    by (simp_all add: sample_host_def)
  have bf: "\<And>entry pair. builtFrom sample_host (SVector [SString entry, v]) pair
      = (pair = (\<lparr>buttonText = entry, isChecked = False\<rparr>, v))" for v
    by (simp add: builtFrom_def sample_host_def)
  from setOptions_keeps_value [OF wf1 titles_w, unfolded old_w eq nl]
  obtain s1 s2 where a: "setOptions sample_host ?o1 ?w = Returns s1"
      "processEvents sample_host s1 = Returns s2"
    and rel: "list_all2 (\<lambda>entry pair. builtFrom sample_host entry
          ((fst pair)\<lparr>isChecked := False\<rparr>, snd pair)) ?o1 (radioToOption s2)"
    and fin: "if \<exists>pair\<in>set (radioToOption s2). snd pair = SInt 42
       then (\<exists>pair\<in>set (radioToOption s2). isChecked (fst pair))
          \<and> value_rg sample_host s2 = SInt 42
          \<and> ((\<forall>pair\<in>set (radioToOption s2). snd pair = SInt 42 \<longrightarrow> snd pair = SInt 42)
               \<longrightarrow> value_rg sample_host s2 = SInt 42)
       else (\<forall>pair\<in>set (radioToOption s2). \<not> isChecked (fst pair))
          \<and> value_rg sample_host s2 = SNull"
    by blast
  from rel obtain p q where pq: "radioToOption s2 = [p, q]" "snd p = SInt 7" "snd q = SInt 42"
    by (auto simp: list_all2_Cons1 bf)
  have v1: "value_rg sample_host s2 = SInt 42"
    using fin pq by simp
  then have f1: "map (\<lambda>p. isChecked (fst p)) (radioToOption s2) = [False, True]"
    using pq by (simp add: value_rg_def nl split: if_splits)
  from setOptions_keeps_value [OF wf2 titles_u, unfolded old_u eq nl]
  obtain t1 t2 where b: "setOptions sample_host ?o2 ?u = Returns t1"
      "processEvents sample_host t1 = Returns t2"
    and rel2: "list_all2 (\<lambda>entry pair. builtFrom sample_host entry
          ((fst pair)\<lparr>isChecked := False\<rparr>, snd pair)) ?o2 (radioToOption t2)"
    and fin2: "if \<exists>pair\<in>set (radioToOption t2). snd pair = SInt 42
       then (\<exists>pair\<in>set (radioToOption t2). isChecked (fst pair))
          \<and> value_rg sample_host t2 = SInt 42
          \<and> ((\<forall>pair\<in>set (radioToOption t2). snd pair = SInt 42 \<longrightarrow> snd pair = SInt 42)
               \<longrightarrow> value_rg sample_host t2 = SInt 42)
       else (\<forall>pair\<in>set (radioToOption t2). \<not> isChecked (fst pair))
          \<and> value_rg sample_host t2 = SNull"
    by blast
  from rel2 obtain p' where p': "radioToOption t2 = [p']" "snd p' = SInt 7"
    by (auto simp: list_all2_Cons1 bf)
  have second: "value_rg sample_host t2 = SNull
      \<and> map (\<lambda>p. isChecked (fst p)) (radioToOption t2) = [False]"
    using fin2 p' by simp
  show ?thesis
  proof (intro conjI)
    show "\<exists>s1 s2. setOptions sample_host ?o1 ?w = Returns s1
      \<and> processEvents sample_host s1 = Returns s2
      \<and> value_rg sample_host s2 = SInt 42
      \<and> map (\<lambda>p. isChecked (fst p)) (radioToOption s2) = [False, True]"
      using a v1 f1 by (intro exI [of _ s1] exI [of _ s2]) simp
    show "\<exists>s1 s2. setOptions sample_host ?o2 ?u = Returns s1
      \<and> processEvents sample_host s1 = Returns s2
      \<and> value_rg sample_host s2 = SNull
      \<and> map (\<lambda>p. isChecked (fst p)) (radioToOption s2) = [False]"
      using b second by (intro exI [of _ t1] exI [of _ t2]) simp
  qed
qed

end
